theory Spec2Isabelle
  imports Complex_Main "HOL-Library.Word"
begin

unbundle bit_operations_syntax

section \<open>Python values and errors\<close>

text \<open>
  Exceptions of the Python code are values: a function that can raise returns
  \<open>py_error + 'a\<close>, with \<open>Inl\<close> the exception.
\<close>

datatype py_error = IndexError | ValueError | OverflowError | RuntimeError

text \<open>
  \<^verbatim>\<open>int(x)\<close> of a finite float truncates toward zero. Every finite float is a real
  number, so the coordinate of a bounding box is a \<open>real\<close> here.
\<close>

definition py_int :: "real \<Rightarrow> int" where
  "py_int x = (if x < 0 then - \<lfloor>- x\<rfloor> else \<lfloor>x\<rfloor>)"

text \<open>\<^verbatim>\<open>str(n)\<close> of an integer, as the f-strings of the code format it: decimal digits,
  a leading minus sign for a negative number.\<close>

definition digit_char :: "nat \<Rightarrow> char" where
  "digit_char d = ''0123456789'' ! d"

fun str_nat :: "nat \<Rightarrow> string" where
  "str_nat n = (if n < 10 then [digit_char n] else str_nat (n div 10) @ [digit_char (n mod 10)])"

declare str_nat.simps [simp del]

definition str_int :: "int \<Rightarrow> string" where
  "str_int i = (if i < 0 then CHR ''-'' # str_nat (nat (- i)) else str_nat (nat i))"

section \<open>The embedding cache (db\_utils.py)\<close>

subsection \<open>bbox\_to\_hash\<close>

text \<open>
  \<^verbatim>\<open>return f"{int(bbox[0])}_{int(bbox[1])}_{int(bbox[2])}_{int(bbox[3])}"\<close>
  A list with fewer than four coordinates raises IndexError; coordinates after the
  fourth are ignored.
\<close>

definition bbox_to_hash :: "real list \<Rightarrow> py_error + string" where
  "bbox_to_hash bbox =
     (if length bbox < 4 then Inl IndexError
      else Inr (str_int (py_int (bbox ! 0)) @ ''_'' @ str_int (py_int (bbox ! 1)) @ ''_'' @
                str_int (py_int (bbox ! 2)) @ ''_'' @ str_int (py_int (bbox ! 3))))"

subsection \<open>The table and its unique index\<close>

text \<open>
  One row of the table \<^verbatim>\<open>embeddings\<close>. The unique index
  \<^verbatim>\<open>idx_embeddings_lookup\<close> is on (image\_id, bbox\_hash, embedding\_type). The
  surrogate key \<^verbatim>\<open>id\<close> is never read by the code and is left out; the foreign
  key is not enforced (the code never turns foreign keys on).
\<close>

record row =
  image_id :: int
  bbox_hash :: string
  embedding_type :: string
  embedding :: "8 word list"
  created_at :: int

type_synonym table = "row list"

definition key_match :: "int \<Rightarrow> string \<Rightarrow> string \<Rightarrow> row \<Rightarrow> bool" where
  "key_match img h ty r = (image_id r = img \<and> bbox_hash r = h \<and> embedding_type r = ty)"

definition row_key :: "row \<Rightarrow> int \<times> string \<times> string" where
  "row_key r = (image_id r, bbox_hash r, embedding_type r)"

text \<open>
  A Python int bound to a parameter of a statement must fit in SQLite's 64-bit INTEGER:
  \<^verbatim>\<open>cursor.execute\<close> raises OverflowError otherwise, before the statement runs.
\<close>

definition sqlite_int_ok :: "int \<Rightarrow> bool" where
  "sqlite_int_ok i = (- (2 ^ 63) \<le> i \<and> i < 2 ^ 63)"

text \<open>\<^verbatim>\<open>INSERT OR REPLACE\<close>: the rows that conflict on the unique index are deleted,
  then the new row is inserted.\<close>

definition insert_or_replace :: "row \<Rightarrow> table \<Rightarrow> table" where
  "insert_or_replace r tb =
     filter (\<lambda>r'. \<not> key_match (image_id r) (bbox_hash r) (embedding_type r) r') tb @ [r]"

text \<open>\<^verbatim>\<open>SELECT embedding ... WHERE image_id = ? AND bbox_hash = ? AND embedding_type = ?\<close>
  followed by \<^verbatim>\<open>fetchone()\<close>.\<close>

definition select_embedding ::
  "table \<Rightarrow> int \<Rightarrow> string \<Rightarrow> string \<Rightarrow> py_error + 8 word list option" where
  "select_embedding tb img h ty =
     (if \<not> sqlite_int_ok img then Inl OverflowError
      else case filter (key_match img h ty) tb of
             [] \<Rightarrow> Inr None
           | r # _ \<Rightarrow> Inr (Some (embedding r)))"

subsection \<open>float32 blobs\<close>

text \<open>
  A float32 is its bit pattern, a 32-bit word. \<^verbatim>\<open>tobytes()\<close> writes each value as four
  bytes, least significant first; \<^verbatim>\<open>np.frombuffer(blob, dtype=np.float32)\<close> reads
  them back and raises ValueError when the blob's size is not a multiple of four.
\<close>

type_synonym float32 = "32 word"

definition f32_bytes :: "float32 \<Rightarrow> 8 word list" where
  "f32_bytes w = [ucast w, ucast (drop_bit 8 w), ucast (drop_bit 16 w), ucast (drop_bit 24 w)]"

definition f32_of_bytes :: "8 word \<Rightarrow> 8 word \<Rightarrow> 8 word \<Rightarrow> 8 word \<Rightarrow> float32" where
  "f32_of_bytes b0 b1 b2 b3 =
     ucast b0 OR push_bit 8 (ucast b1) OR push_bit 16 (ucast b2) OR push_bit 24 (ucast b3)"

definition tobytes :: "float32 list \<Rightarrow> 8 word list" where
  "tobytes ws = concat (map f32_bytes ws)"

fun frombuffer :: "8 word list \<Rightarrow> py_error + float32 list" where
  "frombuffer [] = Inr []"
| "frombuffer (b0 # b1 # b2 # b3 # bs) =
     (case frombuffer bs of Inl e \<Rightarrow> Inl e | Inr ws \<Rightarrow> Inr (f32_of_bytes b0 b1 b2 b3 # ws))"
| "frombuffer _ = Inl ValueError"

subsection \<open>Connections and transactions\<close>

text \<open>
  Every operation opens its own connection. Python's \<^verbatim>\<open>sqlite3\<close> opens a transaction
  before the first INSERT; \<^verbatim>\<open>commit()\<close> makes the connection's changes durable, and
  \<^verbatim>\<open>close()\<close> without a commit loses them. \<open>durable\<close> is the database
  file, \<open>working\<close> the connection's view of it.
\<close>

record connection =
  durable :: table
  working :: table

definition connect :: "table \<Rightarrow> connection" where
  "connect db = \<lparr>durable = db, working = db\<rparr>"

definition execute_insert_or_replace :: "row \<Rightarrow> connection \<Rightarrow> py_error + connection" where
  "execute_insert_or_replace r c =
     (if sqlite_int_ok (image_id r) \<and> sqlite_int_ok (created_at r)
      then Inr (c\<lparr>working := insert_or_replace r (working c)\<rparr>)
      else Inl OverflowError)"

definition commit :: "connection \<Rightarrow> connection" where
  "commit c = c\<lparr>durable := working c\<rparr>"

definition close :: "connection \<Rightarrow> table" where
  "close c = durable c"

subsection \<open>get\_embedding, store\_embedding, store\_embeddings\_batch\<close>

definition get_embedding :: "table \<Rightarrow> int \<Rightarrow> real list \<Rightarrow> string \<Rightarrow> py_error + float32 list option" where
  "get_embedding db img bbox ty =
     (case bbox_to_hash bbox of
        Inl e \<Rightarrow> Inl e
      | Inr h \<Rightarrow>
          (case select_embedding (working (connect db)) img h ty of
             Inl e \<Rightarrow> Inl e
           | Inr None \<Rightarrow> Inr None
           | Inr (Some blob) \<Rightarrow>
               (case frombuffer blob of Inl e \<Rightarrow> Inl e | Inr ws \<Rightarrow> Inr (Some ws))))"

text \<open>
  The store operations return the exception raised, if any, and the database file
  afterwards. \<open>astype\<close> is the cast of one element to float32
  (\<^verbatim>\<open>embedding.astype(np.float32)\<close>), \<open>now\<close> the clock in milliseconds.
\<close>

definition store_embedding ::
  "('a \<Rightarrow> float32) \<Rightarrow> table \<Rightarrow> int \<Rightarrow> real list \<Rightarrow> string \<Rightarrow> 'a list \<Rightarrow> int \<Rightarrow> py_error option \<times> table" where
  "store_embedding astype db img bbox ty emb now =
     (case bbox_to_hash bbox of
        Inl e \<Rightarrow> (Some e, db)
      | Inr h \<Rightarrow>
          (let embedding_bytes = tobytes (map astype emb);
               conn = connect db
           in case execute_insert_or_replace
                     \<lparr>image_id = img, bbox_hash = h, embedding_type = ty,
                      embedding = embedding_bytes, created_at = now\<rparr> conn of
                Inl e \<Rightarrow> (Some e, close conn)
              | Inr conn \<Rightarrow> (None, close (commit conn))))"

text \<open>The loop of \<^verbatim>\<open>store_embeddings_batch\<close>: it stops at the first exception (a
  bounding box with fewer than four coordinates, an integer that does not fit), with the
  connection as it is then.\<close>

fun batch_execute ::
  "('a \<Rightarrow> float32) \<Rightarrow> string \<Rightarrow> int \<Rightarrow> (int \<times> real list \<times> 'a list) list \<Rightarrow> connection
     \<Rightarrow> py_error option \<times> connection" where
  "batch_execute astype ty now [] conn = (None, conn)"
| "batch_execute astype ty now ((img, bbox, emb) # items) conn =
     (case bbox_to_hash bbox of
        Inl e \<Rightarrow> (Some e, conn)
      | Inr h \<Rightarrow>
          (case execute_insert_or_replace
                  \<lparr>image_id = img, bbox_hash = h, embedding_type = ty,
                   embedding = tobytes (map astype emb), created_at = now\<rparr> conn of
             Inl e \<Rightarrow> (Some e, conn)
           | Inr conn' \<Rightarrow> batch_execute astype ty now items conn'))"

text \<open>\<^verbatim>\<open>conn.commit()\<close> stands after the loop and \<^verbatim>\<open>conn.close()\<close> in the
  \<^verbatim>\<open>finally\<close> clause: an exception in the loop skips the commit.\<close>

definition store_embeddings_batch ::
  "('a \<Rightarrow> float32) \<Rightarrow> table \<Rightarrow> (int \<times> real list \<times> 'a list) list \<Rightarrow> string \<Rightarrow> int
     \<Rightarrow> py_error option \<times> table" where
  "store_embeddings_batch astype db items ty now =
     (if items = [] then (None, db)
      else
        (case batch_execute astype ty now items (connect db) of
           (Some e, conn) \<Rightarrow> (Some e, close conn)
         | (None, conn) \<Rightarrow> (None, close (commit conn))))"

section \<open>Distance matrix and clustering (reid\_v2.py, reid\_dino\_adapter.py)\<close>

text \<open>
  The two files hold the same text of \<^verbatim>\<open>compute_distance_matrix\<close> and
  \<^verbatim>\<open>process_dist_mat_v2\<close>. A cell of the distance matrix is a finite float, given by
  its value, or \<open>+inf\<close> (NaN does not occur). The arrays are float32 in the job; the
  functions themselves work in the dtype of their argument.

  Floating-point arithmetic is NumPy's, not the repository's: \<open>rnd\<close> rounds a real to
  the nearest value of the dtype, so that the float difference of \<open>a\<close> and \<open>b\<close> is
  \<open>rnd (a - b)\<close>, and \<open>matmul_T E\<close> is the array \<^verbatim>\<open>E @ E.T\<close> as NumPy computes it in
  that dtype (the order of the additions is the library's). Comparisons of floats are
  exact.
\<close>

datatype dist = Fin real | PInf

datatype dtype = Float32 | Float64

record np_float =
  dtype :: dtype
  rnd :: "real \<Rightarrow> real"
  matmul_T :: "real list list \<Rightarrow> real list list"

text \<open>The value that the literal \<^verbatim>\<open>0.00065\<close> has in a comparison with an array of the
  dtype: the nearest float32, or the nearest float64.\<close>

definition literal_00065 :: "dtype \<Rightarrow> real" where
  "literal_00065 dt =
     (case dt of
        Float32 \<Rightarrow> 11166915 / 2 ^ 34
      | Float64 \<Rightarrow> 1498797955988901 / 2 ^ 61)"

fun dist_le :: "dist \<Rightarrow> dist \<Rightarrow> bool" where
  "dist_le (Fin a) (Fin b) = (a \<le> b)"
| "dist_le PInf (Fin b) = False"
| "dist_le x PInf = True"

definition dist_min :: "dist \<Rightarrow> dist \<Rightarrow> dist" where
  "dist_min a b = (if dist_le a b then a else b)"

text \<open>\<^verbatim>\<open>np.min\<close>, \<^verbatim>\<open>np.max\<close> and \<^verbatim>\<open>np.argmin\<close> raise ValueError on an empty array;
  \<^verbatim>\<open>np.argmin\<close> returns the first index that holds the minimum.\<close>

definition np_min :: "dist list \<Rightarrow> py_error + dist" where
  "np_min xs = (case xs of [] \<Rightarrow> Inl ValueError | x # ys \<Rightarrow> Inr (fold dist_min ys x))"

fun first_index :: "'a \<Rightarrow> 'a list \<Rightarrow> nat" where
  "first_index m [] = 0"
| "first_index m (x # xs) = (if x = m then 0 else Suc (first_index m xs))"

definition np_argmin :: "dist list \<Rightarrow> py_error + nat" where
  "np_argmin xs = (case np_min xs of Inl e \<Rightarrow> Inl e | Inr m \<Rightarrow> Inr (first_index m xs))"

definition np_min_int :: "int list \<Rightarrow> py_error + int" where
  "np_min_int xs = (case xs of [] \<Rightarrow> Inl ValueError | x # ys \<Rightarrow> Inr (fold min ys x))"

definition np_max_int :: "int list \<Rightarrow> py_error + int" where
  "np_max_int xs = (case xs of [] \<Rightarrow> Inl ValueError | x # ys \<Rightarrow> Inr (fold max ys x))"

subsection \<open>compute\_distance\_matrix\<close>

text \<open>\<^verbatim>\<open>for r in range(distance_mat.shape[0]): ... distance_mat[r, min_idx] = np.inf\<close>\<close>

fun mask_loop :: "nat list \<Rightarrow> dist list list \<Rightarrow> py_error + dist list list" where
  "mask_loop [] distance_mat = Inr distance_mat"
| "mask_loop (r # rs) distance_mat =
     (let row = distance_mat ! r in
      case np_argmin row of
        Inl e \<Rightarrow> Inl e
      | Inr min_idx \<Rightarrow> mask_loop rs (distance_mat[r := (distance_mat ! r)[min_idx := PInf]]))"

text \<open>\<^verbatim>\<open>sim_matrix = embeddings @ embeddings.T; distance_mat = 1.0 - sim_matrix\<close>\<close>

definition compute_distance_matrix :: "np_float \<Rightarrow> real list list \<Rightarrow> py_error + dist list list" where
  "compute_distance_matrix np embeddings =
     (let sim_matrix = matmul_T np embeddings;
          distance_mat = map (map (\<lambda>s. Fin (rnd np (1 - s)))) sim_matrix
      in mask_loop [0..<length distance_mat] distance_mat)"

subsection \<open>process\_dist\_mat\_v2\<close>

text \<open>
  \<^verbatim>\<open>np.abs(row - min_dist) <= 0.00065\<close> for one cell: the difference is a float of the
  array's dtype. A difference with an infinite operand is infinite or NaN, and the
  comparison is then false.
\<close>

fun near :: "np_float \<Rightarrow> dist \<Rightarrow> dist \<Rightarrow> bool" where
  "near np (Fin a) (Fin m) = (\<bar>rnd np (a - m)\<bar> \<le> literal_00065 (dtype np))"
| "near np PInf m = False"
| "near np x PInf = False"

definition candidates_of :: "np_float \<Rightarrow> dist list \<Rightarrow> dist \<Rightarrow> nat list" where
  "candidates_of np row min_dist = filter (\<lambda>j. near np (row ! j) min_dist) [0..<length row]"

text \<open>\<^verbatim>\<open>keys[idxs] = v\<close> with an index array on the left.\<close>

definition fancy_set :: "int list \<Rightarrow> nat list \<Rightarrow> int \<Rightarrow> int list" where
  "fancy_set keys idxs v = fold (\<lambda>j ks. ks[j := v]) idxs keys"

text \<open>
  The body of the row loop. Reading \<^verbatim>\<open>keys[candidates_index]\<close> with an index beyond
  the array raises IndexError (the matrix is then not square).
\<close>

definition cluster_row :: "np_float \<Rightarrow> dist list list \<Rightarrow> int list \<Rightarrow> nat \<Rightarrow> py_error + int list" where
  "cluster_row np dist_mat keys r =
     (let row = dist_mat ! r in
      case np_min row of
        Inl e \<Rightarrow> Inl e
      | Inr min_dist \<Rightarrow>
          (let candidates_index = candidates_of np row min_dist in
           if list_ex (\<lambda>j. length keys \<le> j) candidates_index then Inl IndexError
           else
             (let candidates_key = map (\<lambda>j. keys ! j) candidates_index in
              case np_max_int keys of
                Inl e \<Rightarrow> Inl e
              | Inr current_counter \<Rightarrow>
                  if keys ! r \<noteq> - 1 then Inr (fancy_set keys candidates_index (keys ! r))
                  else if list_all (\<lambda>k. k = - 1) candidates_key then
                    Inr (fancy_set (keys[r := current_counter + 1]) candidates_index
                           (current_counter + 1))
                  else if list_ex (\<lambda>k. k \<noteq> - 1) candidates_key then
                    (case np_min_int (filter (\<lambda>k. k \<noteq> - 1) candidates_key) of
                       Inl e \<Rightarrow> Inl e
                     | Inr min_pos_key \<Rightarrow>
                         (let selected_indices =
                                map (\<lambda>p. candidates_index ! p)
                                  (filter (\<lambda>p. candidates_key ! p \<noteq> min_pos_key)
                                     [0..<length candidates_key])
                          in Inr (fancy_set (keys[r := min_pos_key]) selected_indices
                                    min_pos_key)))
                  else Inr keys)))"

fun row_loop :: "np_float \<Rightarrow> dist list list \<Rightarrow> nat list \<Rightarrow> int list \<Rightarrow> py_error + int list" where
  "row_loop np dist_mat [] keys = Inr keys"
| "row_loop np dist_mat (r # rs) keys =
     (case cluster_row np dist_mat keys r of
        Inl e \<Rightarrow> Inl e
      | Inr keys' \<Rightarrow> row_loop np dist_mat rs keys')"

text \<open>\<^verbatim>\<open>list(np.where(keys == k)[0])\<close>\<close>

definition where_eq :: "int list \<Rightarrow> int \<Rightarrow> nat list" where
  "where_eq keys k = filter (\<lambda>i. keys ! i = k) [0..<length keys]"

text \<open>The compaction loop. \<^verbatim>\<open>output_dict\<close> is a dict, kept in insertion order.\<close>

fun compact_loop :: "int list \<Rightarrow> int list \<Rightarrow> nat \<Rightarrow> (nat \<times> nat list) list \<Rightarrow> (nat \<times> nat list) list" where
  "compact_loop keys [] aid output_dict = output_dict"
| "compact_loop keys (k # ks) aid output_dict =
     (if k \<in> set keys then
        (if aid \<notin> fst ` set output_dict
         then compact_loop keys ks (aid + 1) (output_dict @ [(aid, where_eq keys k)])
         else compact_loop keys ks aid output_dict)
      else compact_loop keys ks aid output_dict)"

definition process_dist_mat_v2 ::
  "np_float \<Rightarrow> dist list list \<Rightarrow> py_error + (nat \<times> nat list) list" where
  "process_dist_mat_v2 np dist_mat =
     (let number_of_images = length dist_mat;
          keys = replicate number_of_images (- 1)
      in case row_loop np dist_mat [0..<length dist_mat] keys of
           Inl e \<Rightarrow> Inl e
         | Inr keys \<Rightarrow>
             (case np_min_int keys of
                Inl e \<Rightarrow> Inl e
              | Inr min_key \<Rightarrow>
                  (case np_max_int keys of
                     Inl e \<Rightarrow> Inl e
                   | Inr max_key \<Rightarrow> Inr (compact_loop keys [min_key..max_key] 0 []))))"

section \<open>The cache-aware job (reid\_v2.py, run)\<close>

subsection \<open>Input, configuration and the external models\<close>

text \<open>One entry of the job's \<^verbatim>\<open>detections\<close> list; the key \<^verbatim>\<open>image_id\<close> is optional.\<close>

record detection =
  detection_id :: int
  image_path :: string
  bbox :: "real list"
  det_image_id :: "int option"

text \<open>config/config.py\<close>

definition RAW_EMBEDDING_TYPE :: string where
  "RAW_EMBEDDING_TYPE = ''dinov3_raw''"

definition REID_EMBEDDING_PREFIX :: string where
  "REID_EMBEDDING_PREFIX = ''dinov3_reid_''"

definition RAW_FOR_ADAPTER_TYPE :: string where
  "RAW_FOR_ADAPTER_TYPE = ''dinov3_raw_disabled''"

text \<open>
  The collaborators of \<^verbatim>\<open>run\<close> that are not part of the repository's logic:
  \<^item> \<open>load_and_crop_image\<close> returns the crop and the day flag, or \<open>None\<close> when it raises;
  \<^item> \<open>dino_with_adapter\<close> is the backbone followed by the adapter on a batch of crops,
    \<open>forward_from_raw\<close> the adapter alone on a batch of cached vectors; each returns
    the rows of its result, or the exception it raises;
  \<^item> \<open>f32_value\<close> is the number a float32 bit pattern stands for;
  \<^item> \<open>f32_round\<close> and \<open>f32_matmul_T\<close> are NumPy's float32 rounding and its
    \<^verbatim>\<open>E @ E.T\<close> on float32 arrays.
\<close>

record 'img models =
  load_and_crop_image :: "string \<Rightarrow> real list \<Rightarrow> ('img \<times> nat) option"
  dino_with_adapter :: "'img list \<Rightarrow> nat list \<Rightarrow> py_error + float32 list list"
  forward_from_raw :: "float32 list list \<Rightarrow> nat list \<Rightarrow> py_error + float32 list list"
  f32_value :: "float32 \<Rightarrow> real"
  f32_round :: "real \<Rightarrow> real"
  f32_matmul_T :: "real list list \<Rightarrow> real list list"

text \<open>The arrays of the job are float32.\<close>

definition float32_ops :: "'img models \<Rightarrow> np_float" where
  "float32_ops M = \<lparr>dtype = Float32, rnd = f32_round M, matmul_T = f32_matmul_T M\<rparr>"

subsection \<open>Categorising the detections\<close>

text \<open>\<^verbatim>\<open>key = f"{image_id}:{cache.bbox_to_hash(bbox)}"\<close>\<close>

definition cache_key :: "int \<Rightarrow> real list \<Rightarrow> py_error + string" where
  "cache_key img bx =
     (case bbox_to_hash bx of Inl e \<Rightarrow> Inl e | Inr h \<Rightarrow> Inr (str_int img @ '':'' @ h))"

datatype tier = FullyCached string "float32 list" | AdapterOnly "float32 list" | FullModel

text \<open>
  The decision in the body of the loop \<^verbatim>\<open>for i, det in enumerate(detections)\<close>: with
  a cache and an \<^verbatim>\<open>image_id\<close> the key is built, the final embedding is looked up
  first and the embedding under \<open>raw_embedding_type\<close> second; a detection without
  cache, without \<^verbatim>\<open>image_id\<close> or without either record goes to the full model.
\<close>

definition classify :: "table option \<Rightarrow> string \<Rightarrow> string \<Rightarrow> detection \<Rightarrow> py_error + tier" where
  "classify cache reid_embedding_type raw_embedding_type det =
     (case cache of
        None \<Rightarrow> Inr FullModel
      | Some db \<Rightarrow>
          (case det_image_id det of
             None \<Rightarrow> Inr FullModel
           | Some img \<Rightarrow>
               (case cache_key img (bbox det) of
                  Inl e \<Rightarrow> Inl e
                | Inr key \<Rightarrow>
                    (case get_embedding db img (bbox det) reid_embedding_type of
                       Inl e \<Rightarrow> Inl e
                     | Inr (Some reid_emb) \<Rightarrow> Inr (FullyCached key reid_emb)
                     | Inr None \<Rightarrow>
                         (case get_embedding db img (bbox det) raw_embedding_type of
                            Inl e \<Rightarrow> Inl e
                          | Inr (Some raw_emb) \<Rightarrow> Inr (AdapterOnly raw_emb)
                          | Inr None \<Rightarrow> Inr FullModel)))))"

record cls_state =
  cached_reid :: "string \<rightharpoonup> float32 list"
  has_raw :: "(nat \<times> detection \<times> float32 list) list"
  needs_full :: "(nat \<times> detection) list"
  detection_ids :: "int option list"

fun classify_loop ::
  "table option \<Rightarrow> string \<Rightarrow> string \<Rightarrow> (nat \<times> detection) list \<Rightarrow> cls_state \<Rightarrow> py_error + cls_state" where
  "classify_loop cache reid_ty raw_ty [] st = Inr st"
| "classify_loop cache reid_ty raw_ty ((i, det) # rest) st =
     (let st = st\<lparr>detection_ids := detection_ids st @ [Some (detection_id det)]\<rparr> in
      case classify cache reid_ty raw_ty det of
        Inl e \<Rightarrow> Inl e
      | Inr (FullyCached key reid_emb) \<Rightarrow>
          classify_loop cache reid_ty raw_ty rest
            (st\<lparr>cached_reid := (cached_reid st)(key \<mapsto> reid_emb)\<rparr>)
      | Inr (AdapterOnly raw_emb) \<Rightarrow>
          classify_loop cache reid_ty raw_ty rest (st\<lparr>has_raw := has_raw st @ [(i, det, raw_emb)]\<rparr>)
      | Inr FullModel \<Rightarrow>
          classify_loop cache reid_ty raw_ty rest (st\<lparr>needs_full := needs_full st @ [(i, det)]\<rparr>))"

subsection \<open>Batches\<close>

text \<open>
  \<^verbatim>\<open>range(0, n, batch_size)\<close>: a zero step raises ValueError, a negative step gives
  no start at all. \<^verbatim>\<open>items[batch_start:batch_start + batch_size]\<close> is the slice of
  one batch.
\<close>

definition py_range :: "nat \<Rightarrow> int \<Rightarrow> py_error + nat list" where
  "py_range n step =
     (if step = 0 then Inl ValueError
      else if step < 0 then Inr []
      else Inr (map (\<lambda>k. k * nat step) [0..<(n + nat step - 1) div nat step]))"

definition batches_of :: "int \<Rightarrow> 'a list \<Rightarrow> py_error + 'a list list" where
  "batches_of batch_size items =
     (case py_range (length items) batch_size of
        Inl e \<Rightarrow> Inl e
      | Inr starts \<Rightarrow>
          Inr (map (\<lambda>batch_start. take (nat batch_size) (drop batch_start items)) starts))"

text \<open>\<^verbatim>\<open>torch.stack\<close> raises RuntimeError unless all tensors have one shape.\<close>

definition torch_stack :: "'a list list \<Rightarrow> py_error + 'a list list" where
  "torch_stack tensors =
     (case tensors of
        [] \<Rightarrow> Inl RuntimeError
      | a # as \<Rightarrow> if list_all (\<lambda>b. length b = length a) as then Inr tensors else Inl RuntimeError)"

text \<open>\<^verbatim>\<open>for k, (idx, det) in enumerate(batch_info): embeddings[idx] = reid_features_np[k]\<close>;
  a row beyond the result raises IndexError.\<close>

fun store_rows ::
  "(nat \<times> detection) list \<Rightarrow> float32 list list \<Rightarrow> nat \<Rightarrow> (nat \<rightharpoonup> float32 list)
     \<Rightarrow> py_error + (nat \<rightharpoonup> float32 list)" where
  "store_rows [] reid_features_np k embeddings = Inr embeddings"
| "store_rows ((idx, det) # batch_info) reid_features_np k embeddings =
     (if k < length reid_features_np
      then store_rows batch_info reid_features_np (Suc k) (embeddings(idx \<mapsto> reid_features_np ! k))
      else Inl IndexError)"

subsection \<open>The adapter-only and the full-model stages\<close>

text \<open>
  The write-back \<^verbatim>\<open>cache.store_embeddings_batch(items_to_store, reid_embedding_type)\<close>
  and the progress lines are left out of the two stages: the job reads the cache only
  in the categorising loop, before these stages, so the write-back changes the database
  and nothing that \<^verbatim>\<open>run\<close> computes afterwards.
\<close>

definition is_day_or_default :: "'img models \<Rightarrow> detection \<Rightarrow> nat" where
  "is_day_or_default M det =
     (case load_and_crop_image M (image_path det) (bbox det) of
        Some (img, is_day) \<Rightarrow> is_day
      | None \<Rightarrow> 1)"

definition adapter_batch ::
  "'img models \<Rightarrow> (nat \<times> detection \<times> float32 list) list \<Rightarrow> (nat \<rightharpoonup> float32 list)
     \<Rightarrow> py_error + (nat \<rightharpoonup> float32 list)" where
  "adapter_batch M batch_items raw_embeddings =
     (let raw_tensors = map (\<lambda>(idx, det, raw_emb). raw_emb) batch_items;
          is_day_list = map (\<lambda>(idx, det, raw_emb). is_day_or_default M det) batch_items;
          batch_info = map (\<lambda>(idx, det, raw_emb). (idx, det)) batch_items
      in case torch_stack raw_tensors of
           Inl e \<Rightarrow> Inl e
         | Inr batch_tensor \<Rightarrow>
             (case forward_from_raw M batch_tensor is_day_list of
                Inl e \<Rightarrow> Inl e
              | Inr reid_features_np \<Rightarrow> store_rows batch_info reid_features_np 0 raw_embeddings))"

fun adapter_loop ::
  "'img models \<Rightarrow> (nat \<times> detection \<times> float32 list) list list \<Rightarrow> (nat \<rightharpoonup> float32 list)
     \<Rightarrow> py_error + (nat \<rightharpoonup> float32 list)" where
  "adapter_loop M [] raw_embeddings = Inr raw_embeddings"
| "adapter_loop M (batch_items # batches) raw_embeddings =
     (case adapter_batch M batch_items raw_embeddings of
        Inl e \<Rightarrow> Inl e
      | Inr raw_embeddings' \<Rightarrow> adapter_loop M batches raw_embeddings')"

definition adapter_stage ::
  "'img models \<Rightarrow> int \<Rightarrow> (nat \<times> detection \<times> float32 list) list \<Rightarrow> py_error + (nat \<rightharpoonup> float32 list)" where
  "adapter_stage M batch_size has_raw_items =
     (if has_raw_items = [] then Inr Map.empty
      else case batches_of batch_size has_raw_items of
             Inl e \<Rightarrow> Inl e
           | Inr batches \<Rightarrow> adapter_loop M batches Map.empty)"

text \<open>\<^verbatim>\<open>detection_ids[detection_ids.index(det['detection_id'])] = None\<close>:
  \<^verbatim>\<open>list.index\<close> finds the first element equal to the value and raises ValueError when
  there is none.\<close>

fun mark_failed :: "int \<Rightarrow> int option list \<Rightarrow> py_error + int option list" where
  "mark_failed v [] = Inl ValueError"
| "mark_failed v (x # xs) =
     (if x = Some v then Inr (None # xs)
      else (case mark_failed v xs of Inl e \<Rightarrow> Inl e | Inr ys \<Rightarrow> Inr (x # ys)))"

text \<open>The inner loop of the full-model stage: the crops of one batch that load, and
  the identifier list with an entry blanked for each one that does not.\<close>

fun load_batch ::
  "'img models \<Rightarrow> (nat \<times> detection) list
     \<Rightarrow> 'img list \<times> nat list \<times> (nat \<times> detection) list \<times> int option list
     \<Rightarrow> py_error + 'img list \<times> nat list \<times> (nat \<times> detection) list \<times> int option list" where
  "load_batch M [] st = Inr st"
| "load_batch M ((idx, det) # batch_items) (images, is_day_list, batch_info, ids) =
     (case load_and_crop_image M (image_path det) (bbox det) of
        Some (img, is_day) \<Rightarrow>
          load_batch M batch_items
            (images @ [img], is_day_list @ [is_day], batch_info @ [(idx, det)], ids)
      | None \<Rightarrow>
          (case mark_failed (detection_id det) ids of
             Inl e \<Rightarrow> Inl e
           | Inr ids' \<Rightarrow> load_batch M batch_items (images, is_day_list, batch_info, ids')))"

definition full_batch ::
  "'img models \<Rightarrow> (nat \<times> detection) list \<Rightarrow> (nat \<rightharpoonup> float32 list) \<times> int option list
     \<Rightarrow> py_error + (nat \<rightharpoonup> float32 list) \<times> int option list" where
  "full_batch M batch_items st =
     (case st of (full_embeddings, ids) \<Rightarrow>
        (case load_batch M batch_items ([], [], [], ids) of
           Inl e \<Rightarrow> Inl e
         | Inr (images, is_day_list, batch_info, ids') \<Rightarrow>
             if images = [] then Inr (full_embeddings, ids')
             else
               (case dino_with_adapter M images is_day_list of
                  Inl e \<Rightarrow> Inl e
                | Inr reid_features_np \<Rightarrow>
                    (case store_rows batch_info reid_features_np 0 full_embeddings of
                       Inl e \<Rightarrow> Inl e
                     | Inr full_embeddings' \<Rightarrow> Inr (full_embeddings', ids')))))"

fun full_loop ::
  "'img models \<Rightarrow> (nat \<times> detection) list list \<Rightarrow> (nat \<rightharpoonup> float32 list) \<times> int option list
     \<Rightarrow> py_error + (nat \<rightharpoonup> float32 list) \<times> int option list" where
  "full_loop M [] st = Inr st"
| "full_loop M (batch_items # batches) st =
     (case full_batch M batch_items st of
        Inl e \<Rightarrow> Inl e
      | Inr st' \<Rightarrow> full_loop M batches st')"

definition full_stage ::
  "'img models \<Rightarrow> int \<Rightarrow> (nat \<times> detection) list \<Rightarrow> int option list
     \<Rightarrow> py_error + (nat \<rightharpoonup> float32 list) \<times> int option list" where
  "full_stage M batch_size needs_full_items ids =
     (if needs_full_items = [] then Inr (Map.empty, ids)
      else case batches_of batch_size needs_full_items of
             Inl e \<Rightarrow> Inl e
           | Inr batches \<Rightarrow> full_loop M batches (Map.empty, ids))"

subsection \<open>Combining the embeddings in the original order\<close>

definition cached_lookup ::
  "table option \<Rightarrow> (string \<rightharpoonup> float32 list) \<Rightarrow> detection \<Rightarrow> py_error + float32 list option" where
  "cached_lookup cache cached det =
     (case cache of
        None \<Rightarrow> Inr None
      | Some db \<Rightarrow>
          (case det_image_id det of
             None \<Rightarrow> Inr None
           | Some img \<Rightarrow>
               (case cache_key img (bbox det) of Inl e \<Rightarrow> Inl e | Inr key \<Rightarrow> Inr (cached key))))"

fun combine_loop ::
  "table option \<Rightarrow> (string \<rightharpoonup> float32 list) \<Rightarrow> (nat \<rightharpoonup> float32 list) \<Rightarrow> (nat \<rightharpoonup> float32 list)
     \<Rightarrow> int list \<Rightarrow> (nat \<times> detection) list \<Rightarrow> float32 list list \<Rightarrow> py_error + float32 list list" where
  "combine_loop cache cached raw_embeddings full_embeddings ids [] all_embeddings = Inr all_embeddings"
| "combine_loop cache cached raw_embeddings full_embeddings ids ((i, det) # rest) all_embeddings =
     (if detection_id det \<notin> set ids
      then combine_loop cache cached raw_embeddings full_embeddings ids rest all_embeddings
      else
        (case cached_lookup cache cached det of
           Inl e \<Rightarrow> Inl e
         | Inr (Some v) \<Rightarrow>
             combine_loop cache cached raw_embeddings full_embeddings ids rest (all_embeddings @ [v])
         | Inr None \<Rightarrow>
             (case raw_embeddings i of
                Some v \<Rightarrow>
                  combine_loop cache cached raw_embeddings full_embeddings ids rest (all_embeddings @ [v])
              | None \<Rightarrow>
                  (case full_embeddings i of
                     Some v \<Rightarrow>
                       combine_loop cache cached raw_embeddings full_embeddings ids rest
                         (all_embeddings @ [v])
                   | None \<Rightarrow>
                       combine_loop cache cached raw_embeddings full_embeddings ids rest
                         all_embeddings))))"

text \<open>
  Lines 476 to 631 of \<^verbatim>\<open>run\<close>: the surviving embeddings, in the order of the input,
  and the list \<^verbatim>\<open>detection_ids\<close> after the failed entries are removed.
\<close>

definition collect_embeddings ::
  "'img models \<Rightarrow> table option \<Rightarrow> string \<Rightarrow> int \<Rightarrow> detection list
     \<Rightarrow> py_error + float32 list list \<times> int list" where
  "collect_embeddings M cache species batch_size detections =
     (let reid_embedding_type = REID_EMBEDDING_PREFIX @ species;
          raw_embedding_type = RAW_FOR_ADAPTER_TYPE
      in case classify_loop cache reid_embedding_type raw_embedding_type (enumerate 0 detections)
                \<lparr>cached_reid = Map.empty, has_raw = [], needs_full = [], detection_ids = []\<rparr> of
           Inl e \<Rightarrow> Inl e
         | Inr st \<Rightarrow>
             (case adapter_stage M batch_size (has_raw st) of
                Inl e \<Rightarrow> Inl e
              | Inr raw_embeddings \<Rightarrow>
                  (case full_stage M batch_size (needs_full st) (detection_ids st) of
                     Inl e \<Rightarrow> Inl e
                   | Inr (full_embeddings, ids) \<Rightarrow>
                       (let ids = map the (filter (\<lambda>d. d \<noteq> None) ids) in
                        case combine_loop cache (cached_reid st) raw_embeddings full_embeddings ids
                               (enumerate 0 detections) [] of
                          Inl e \<Rightarrow> Inl e
                        | Inr all_embeddings \<Rightarrow> Inr (all_embeddings, ids)))))"

subsection \<open>Output\<close>

text \<open>An individual of the output is its name and its list of detection ids.
  \<^verbatim>\<open>detection_ids[idx]\<close> raises IndexError beyond the list.\<close>

definition format_output_with_detection_ids ::
  "int list \<Rightarrow> (nat \<times> nat list) list \<Rightarrow> py_error + (string \<times> int list) list" where
  "format_output_with_detection_ids ids cluster_dict =
     (if list_ex (\<lambda>(cluster_id, indices). list_ex (\<lambda>idx. length ids \<le> idx) indices) cluster_dict
      then Inl IndexError
      else Inr (map (\<lambda>(cluster_id, indices).
                  (''ID-'' @ str_nat cluster_id, map (\<lambda>idx. ids ! idx) indices)) cluster_dict))"

text \<open>\<^verbatim>\<open>np.stack\<close> raises ValueError unless all arrays have one shape.\<close>

definition np_stack :: "'a list list \<Rightarrow> py_error + 'a list list" where
  "np_stack arrays =
     (case arrays of
        [] \<Rightarrow> Inl ValueError
      | a # as \<Rightarrow> if list_all (\<lambda>b. length b = length a) as then Inr arrays else Inl ValueError)"

text \<open>
  \<^verbatim>\<open>run\<close> has four exits that write the output file. Only the last one is reached
  through \<^verbatim>\<open>compute_distance_matrix\<close> and \<^verbatim>\<open>process_dist_mat_v2\<close>.
\<close>

datatype exit_point = NoDetections | SingleDetection | NoValidEmbeddings | Clustered

definition run ::
  "'img models \<Rightarrow> table option \<Rightarrow> string \<Rightarrow> int \<Rightarrow> detection list
     \<Rightarrow> py_error + exit_point \<times> (string \<times> int list) list" where
  "run M cache species batch_size detections =
     (if length detections = 0 then Inr (NoDetections, [])
      else if length detections = 1
      then Inr (SingleDetection, [(''ID-0'', [detection_id (detections ! 0)])])
      else
        (case collect_embeddings M cache species batch_size detections of
           Inl e \<Rightarrow> Inl e
         | Inr (all_embeddings, ids) \<Rightarrow>
             if length all_embeddings = 0 then Inr (NoValidEmbeddings, [])
             else
               (case np_stack all_embeddings of
                  Inl e \<Rightarrow> Inl e
                | Inr embeddings \<Rightarrow>
                    (case compute_distance_matrix (float32_ops M)
                            (map (map (f32_value M)) embeddings) of
                       Inl e \<Rightarrow> Inl e
                     | Inr distance_mat \<Rightarrow>
                         (case process_dist_mat_v2 (float32_ops M) distance_mat of
                            Inl e \<Rightarrow> Inl e
                          | Inr id_dict \<Rightarrow>
                              (case format_output_with_detection_ids ids id_dict of
                                 Inl e \<Rightarrow> Inl e
                               | Inr output \<Rightarrow> Inr (Clustered, output)))))))"

section \<open>Properties of the embedding cache\<close>

lemma py_int_truncates:
  "\<bar>real_of_int (py_int x)\<bar> \<le> \<bar>x\<bar> \<and> \<bar>x\<bar> < \<bar>real_of_int (py_int x)\<bar> + 1"
  unfolding py_int_def by (auto; linarith)

lemma py_int_sign: "(0 \<le> x \<longrightarrow> 0 \<le> py_int x) \<and> (x \<le> 0 \<longrightarrow> py_int x \<le> 0)"
  unfolding py_int_def by (auto; linarith)

lemma bbox_to_hash_four:
  "bbox_to_hash [x1, y1, x2, y2] =
     Inr (str_int (py_int x1) @ ''_'' @ str_int (py_int y1) @ ''_'' @
          str_int (py_int x2) @ ''_'' @ str_int (py_int y2))"
  by (simp add: bbox_to_hash_def)

lemma bbox_to_hash_example: "bbox_to_hash [1.2, 3.7, 4.1, 5.9] = Inr ''1_3_4_5''"
  by (simp add: bbox_to_hash_def py_int_def str_int_def str_nat.simps digit_char_def)

lemma bbox_to_hash_example_int: "bbox_to_hash [1, 3, 4, 5] = Inr ''1_3_4_5''"
  by (simp add: bbox_to_hash_def py_int_def str_int_def str_nat.simps digit_char_def)

lemma bbox_to_hash_negative: "bbox_to_hash [- 1.5, 0, 4, 5] = Inr ''-1_0_4_5''"
  by (simp add: bbox_to_hash_def py_int_def str_int_def str_nat.simps digit_char_def)

lemma bbox_to_hash_negative_floor:
  "bbox_to_hash (map (\<lambda>x. real_of_int \<lfloor>x\<rfloor>) [- 1.5 :: real, 0, 4, 5]) = Inr ''-2_0_4_5''"
  by (simp add: bbox_to_hash_def py_int_def str_int_def str_nat.simps digit_char_def)

lemma py_int_floor_nonneg: "0 \<le> x \<Longrightarrow> py_int (real_of_int \<lfloor>x\<rfloor>) = py_int x"
  by (simp add: py_int_def)

text \<open>
  C6. Bbox hash coarsening: the hash of \<open>[x1, y1, x2, y2]\<close> is the four coordinates,
  each truncated toward zero by \<open>py_int\<close>, printed in decimal and joined by underscores;
  \<open>[1.2, 3.7, 4.1, 5.9]\<close> and \<open>[1, 3, 4, 5]\<close> have the same hash, as have any two boxes
  with the same truncated coordinates; and the hash of a box is not in general the hash of
  its floor (a negative coordinate truncates upward).
\<close>

theorem bbox_hash_coarsening:
  "bbox_to_hash [x1, y1, x2, y2] =
     Inr (str_int (py_int x1) @ ''_'' @ str_int (py_int y1) @ ''_'' @
          str_int (py_int x2) @ ''_'' @ str_int (py_int y2))
   \<and> (\<bar>real_of_int (py_int x)\<bar> \<le> \<bar>x\<bar> \<and> \<bar>x\<bar> < \<bar>real_of_int (py_int x)\<bar> + 1)
   \<and> bbox_to_hash [1.2, 3.7, 4.1, 5.9] = bbox_to_hash [1, 3, 4, 5]
   \<and> (map py_int [a1, b1, c1, d1] = map py_int [a2, b2, c2, d2]
        \<longrightarrow> bbox_to_hash [a1, b1, c1, d1] = bbox_to_hash [a2, b2, c2, d2])
   \<and> (\<exists>bx. length bx = 4 \<and>
          bbox_to_hash bx \<noteq> bbox_to_hash (map (\<lambda>x. real_of_int \<lfloor>x\<rfloor>) bx))"
proof -
  have "bbox_to_hash [- 1.5, 0, 4, 5] \<noteq>
        bbox_to_hash (map (\<lambda>x. real_of_int \<lfloor>x\<rfloor>) [- 1.5 :: real, 0, 4, 5])"
    by (simp only: bbox_to_hash_negative bbox_to_hash_negative_floor) simp
  then have ex: "\<exists>bx. length bx = 4 \<and>
          bbox_to_hash bx \<noteq> bbox_to_hash (map (\<lambda>x. real_of_int \<lfloor>x\<rfloor>) bx)"
    by (intro exI [of _ "[- 1.5, 0, 4, 5]"]) (simp del: list.map)
  have same: "bbox_to_hash [1.2, 3.7, 4.1, 5.9] = bbox_to_hash [1, 3, 4, 5]"
    by (simp only: bbox_to_hash_example bbox_to_hash_example_int)
  have coll: "map py_int [a1, b1, c1, d1] = map py_int [a2, b2, c2, d2]
        \<longrightarrow> bbox_to_hash [a1, b1, c1, d1] = bbox_to_hash [a2, b2, c2, d2]"
    by (simp add: bbox_to_hash_four)
  from bbox_to_hash_four [of x1 y1 x2 y2] py_int_truncates [of x] same coll ex
  show ?thesis by blast
qed

theorem bbox_hash_coarsening_witness:
  "map py_int [1.2, 3.7, 4.1, 5.9] = map py_int [1, 3, 4, 5]
   \<and> bbox_to_hash [1.2, 3.7, 4.1, 5.9] = bbox_to_hash [1, 3, 4, 5]
   \<and> bbox_to_hash [1.2, 3.7, 4.1, 5.9] = Inr ''1_3_4_5''"
proof -
  have h: "map py_int [1.2, 3.7, 4.1, 5.9] = map py_int [1, 3, 4, 5]"
    by (simp add: py_int_def)
  from bbox_hash_coarsening [of "1.2" "3.7" "4.1" "5.9" 0 "1.2" "3.7" "4.1" "5.9" 1 3 4 5] h
  have "bbox_to_hash [1.2, 3.7, 4.1, 5.9] = bbox_to_hash [1, 3, 4, 5]"
    by blast
  with h bbox_to_hash_example show ?thesis by blast
qed

lemma f32_roundtrip:
  "f32_of_bytes (ucast w) (ucast (drop_bit 8 w)) (ucast (drop_bit 16 w)) (ucast (drop_bit 24 w)) = (w :: 32 word)"
  unfolding f32_of_bytes_def
proof (rule bit_word_eqI)
  fix n assume "n < LENGTH(32)"
  then have n: "n < 32" by simp
  consider "n < 8" | "8 \<le> n" "n < 16" | "16 \<le> n" "n < 24" | "24 \<le> n" by linarith
  then show "bit (ucast (ucast w :: 8 word) OR push_bit 8 (ucast (ucast (drop_bit 8 w) :: 8 word)) OR
          push_bit 16 (ucast (ucast (drop_bit 16 w) :: 8 word)) OR
          push_bit 24 (ucast (ucast (drop_bit 24 w) :: 8 word)) :: 32 word) n = bit w n"
    using n by cases (auto simp: bit_simps)
qed

lemma frombuffer_tobytes: "frombuffer (tobytes ws) = Inr ws"
  by (induction ws) (simp_all add: tobytes_def f32_bytes_def f32_roundtrip)

lemma filter_insert_or_replace_same:
  "filter (key_match (image_id r) (bbox_hash r) (embedding_type r)) (insert_or_replace r tb) = [r]"
  by (simp add: insert_or_replace_def key_match_def)

lemma filter_insert_or_replace_other:
  "k \<noteq> row_key r \<Longrightarrow>
   filter (\<lambda>r'. row_key r' = k) (insert_or_replace r tb) = filter (\<lambda>r'. row_key r' = k) tb"
  by (induction tb) (auto simp: insert_or_replace_def key_match_def row_key_def)

lemma distinct_insert_or_replace:
  "distinct (map row_key tb) \<Longrightarrow> distinct (map row_key (insert_or_replace r tb))"
  by (auto simp: insert_or_replace_def distinct_map_filter key_match_def row_key_def)

text \<open>
  C5. Cache round trip: after \<open>store_embedding\<close> of a vector \<open>v\<close> under an image id, a
  bounding box and a variant, \<open>get_embedding\<close> with the same three returns exactly the
  float32 cast of \<open>v\<close> (the bytes written are read back bit for bit); the table then
  holds exactly one row with that key, rows with other keys are untouched, and a table
  with at most one row per key stays so. The bounding box has its four coordinates, and
  the image id and the clock fit in SQLite's 64-bit integer (the store raises otherwise).
\<close>

theorem cache_round_trip:
  assumes "4 \<le> length bx" and "sqlite_int_ok img" and "sqlite_int_ok now"
  shows "\<exists>db' h. store_embedding astype db img bx ty v now = (None, db')
           \<and> bbox_to_hash bx = Inr h
           \<and> get_embedding db' img bx ty = Inr (Some (map astype v))
           \<and> length (filter (key_match img h ty) db') = 1
           \<and> (\<forall>k. k \<noteq> (img, h, ty) \<longrightarrow>
                 filter (\<lambda>r. row_key r = k) db' = filter (\<lambda>r. row_key r = k) db)
           \<and> (distinct (map row_key db) \<longrightarrow> distinct (map row_key db'))"
proof -
  obtain h where h: "bbox_to_hash bx = Inr h"
    using assms(1) by (simp add: bbox_to_hash_def)
  let ?r = "\<lparr>image_id = img, bbox_hash = h, embedding_type = ty,
             embedding = tobytes (map astype v), created_at = now\<rparr>"
  have st: "store_embedding astype db img bx ty v now = (None, insert_or_replace ?r db)"
    using assms(2,3)
    by (simp add: store_embedding_def h connect_def execute_insert_or_replace_def commit_def
        close_def)
  have sel: "filter (key_match img h ty) (insert_or_replace ?r db) = [?r]"
    using filter_insert_or_replace_same [of ?r db] by simp
  have get: "get_embedding (insert_or_replace ?r db) img bx ty = Inr (Some (map astype v))"
    using assms(2)
    by (simp add: get_embedding_def h connect_def select_embedding_def sel frombuffer_tobytes)
  have other: "filter (\<lambda>r'. row_key r' = k) (insert_or_replace ?r db) = filter (\<lambda>r'. row_key r' = k) db"
    if "k \<noteq> (img, h, ty)" for k
    using that filter_insert_or_replace_other [of k ?r db] by (simp add: row_key_def)
  show ?thesis
    using st h get sel other distinct_insert_or_replace [of db ?r] by auto
qed

theorem cache_round_trip_witness:
  "4 \<le> length [1.2 :: real, 3.7, 4.1, 5.9] \<and> sqlite_int_ok 7 \<and> sqlite_int_ok 5
   \<and> store_embedding (\<lambda>w. w) [] 7 [1.2, 3.7, 4.1, 5.9] ''dinov3_raw'' [0x3F800000, 0] 5 =
       (None, [\<lparr>image_id = 7, bbox_hash = ''1_3_4_5'', embedding_type = ''dinov3_raw'',
                embedding = [0, 0, 0x80, 0x3F, 0, 0, 0, 0], created_at = 5\<rparr>])
   \<and> get_embedding [\<lparr>image_id = 7, bbox_hash = ''1_3_4_5'', embedding_type = ''dinov3_raw'',
                embedding = [0, 0, 0x80, 0x3F, 0, 0, 0, 0], created_at = 5\<rparr>]
        7 [1.2, 3.7, 4.1, 5.9] ''dinov3_raw'' = Inr (Some [0x3F800000, 0])"
proof -
  have h: "4 \<le> length [1.2 :: real, 3.7, 4.1, 5.9]" by simp
  have i: "sqlite_int_ok 7" "sqlite_int_ok 5" by (simp_all add: sqlite_int_ok_def)
  have s: "store_embedding (\<lambda>w. w) [] 7 [1.2, 3.7, 4.1, 5.9] ''dinov3_raw'' [0x3F800000, 0] 5 =
       (None, [\<lparr>image_id = 7, bbox_hash = ''1_3_4_5'', embedding_type = ''dinov3_raw'',
                embedding = [0, 0, 0x80, 0x3F, 0, 0, 0, 0], created_at = 5\<rparr>])"
    by (simp add: store_embedding_def bbox_to_hash_def py_int_def str_int_def str_nat.simps
        digit_char_def connect_def execute_insert_or_replace_def commit_def close_def
        insert_or_replace_def tobytes_def f32_bytes_def sqlite_int_ok_def)
  show ?thesis
    using h i s cache_round_trip [OF h i, of "\<lambda>w. w" "[]" "''dinov3_raw''" "[0x3F800000, 0]"]
    by auto
qed

lemma batch_execute_durable:
  "durable (snd (batch_execute astype ty now items conn)) = durable conn"
  by (induction items arbitrary: conn)
    (auto simp: execute_insert_or_replace_def split: sum.splits if_splits)

lemma bbox_to_hash_Inl_iff: "(\<exists>e. bbox_to_hash bx = Inl e) \<longleftrightarrow> length bx < 4"
  by (simp add: bbox_to_hash_def)

lemma bbox_to_hash_Inr_iff: "(\<exists>h. bbox_to_hash bx = Inr h) \<longleftrightarrow> 4 \<le> length bx"
  by (simp add: bbox_to_hash_def)

lemma execute_insert_or_replace_Inr:
  "execute_insert_or_replace r c = Inr c' \<longleftrightarrow>
     sqlite_int_ok (image_id r) \<and> sqlite_int_ok (created_at r)
     \<and> c' = c\<lparr>working := insert_or_replace r (working c)\<rparr>"
  by (auto simp: execute_insert_or_replace_def)

lemma batch_execute_ok_iff:
  "fst (batch_execute astype ty now items conn) = None \<longleftrightarrow>
     (\<forall>(img, bx, emb) \<in> set items. 4 \<le> length bx \<and> sqlite_int_ok img \<and> sqlite_int_ok now)"
proof (induction items arbitrary: conn)
  case Nil
  then show ?case by simp
next
  case (Cons item items)
  obtain img0 bx0 emb0 where item: "item = (img0, bx0, emb0)" by (cases item) auto
  show ?case
  proof (cases "bbox_to_hash bx0")
    case (Inl e)
    then have "length bx0 < 4" using bbox_to_hash_Inl_iff [of bx0] by blast
    with Inl item show ?thesis by simp
  next
    case (Inr h)
    then have len: "4 \<le> length bx0" using bbox_to_hash_Inr_iff [of bx0] by blast
    show ?thesis
    proof (cases "sqlite_int_ok img0 \<and> sqlite_int_ok now")
      case True
      with Inr item len Cons.IH show ?thesis
        by (simp add: execute_insert_or_replace_def)
    next
      case False
      with Inr item show ?thesis
        by (auto simp: execute_insert_or_replace_def)
    qed
  qed
qed

lemma batch_execute_step:
  assumes "batch_execute astype ty now ((img0, bx0, emb0) # items) conn = (None, conn')"
  shows "\<exists>h0. bbox_to_hash bx0 = Inr h0
     \<and> batch_execute astype ty now items
          (conn\<lparr>working := insert_or_replace
             \<lparr>image_id = img0, bbox_hash = h0, embedding_type = ty,
              embedding = tobytes (map astype emb0), created_at = now\<rparr> (working conn)\<rparr>)
        = (None, conn')"
  using assms by (auto simp: execute_insert_or_replace_def split: sum.splits if_splits)

lemma filter_key_insert_or_replace:
  "filter (key_match img h ty) (insert_or_replace r tb) =
     (if key_match img h ty r then [r] else filter (key_match img h ty) tb)"
proof (cases "key_match img h ty r")
  case True
  then have "filter (key_match img h ty)
      (filter (\<lambda>r'. \<not> key_match (image_id r) (bbox_hash r) (embedding_type r) r') tb) = []"
    by (auto simp: key_match_def filter_empty_conv)
  with True show ?thesis by (simp add: insert_or_replace_def)
next
  case False
  then have "filter (key_match img h ty)
      (filter (\<lambda>r'. \<not> key_match (image_id r) (bbox_hash r) (embedding_type r) r') tb) =
      filter (key_match img h ty) tb"
    unfolding filter_filter by (intro filter_cong) (auto simp: key_match_def)
  with False show ?thesis by (simp add: insert_or_replace_def)
qed

lemma batch_execute_keeps_key:
  assumes "batch_execute astype ty now items conn = (None, conn')"
    and "\<exists>emb'. filter (key_match img h ty) (working conn) =
           [\<lparr>image_id = img, bbox_hash = h, embedding_type = ty,
             embedding = tobytes (map astype emb'), created_at = now\<rparr>]"
  shows "\<exists>emb'. filter (key_match img h ty) (working conn') =
           [\<lparr>image_id = img, bbox_hash = h, embedding_type = ty,
             embedding = tobytes (map astype emb'), created_at = now\<rparr>]"
  using assms
proof (induction items arbitrary: conn)
  case Nil
  then show ?case by simp
next
  case (Cons item items)
  obtain img0 bx0 emb0 where item: "item = (img0, bx0, emb0)" by (cases item) auto
  from batch_execute_step [of astype ty now img0 bx0 emb0 items conn conn'] Cons.prems(1) item
  obtain h0 where h0: "bbox_to_hash bx0 = Inr h0"
    and run: "batch_execute astype ty now items
          (conn\<lparr>working := insert_or_replace
             \<lparr>image_id = img0, bbox_hash = h0, embedding_type = ty,
              embedding = tobytes (map astype emb0), created_at = now\<rparr> (working conn)\<rparr>)
        = (None, conn')"
    by blast
  let ?r = "\<lparr>image_id = img0, bbox_hash = h0, embedding_type = ty,
             embedding = tobytes (map astype emb0), created_at = now\<rparr>"
  let ?c = "conn\<lparr>working := insert_or_replace ?r (working conn)\<rparr>"
  have "\<exists>emb'. filter (key_match img h ty) (working ?c) =
           [\<lparr>image_id = img, bbox_hash = h, embedding_type = ty,
             embedding = tobytes (map astype emb'), created_at = now\<rparr>]"
  proof (cases "key_match img h ty ?r")
    case True
    then have "filter (key_match img h ty) (working ?c) = [?r]"
      by (simp add: filter_key_insert_or_replace)
    moreover from True have "img0 = img" "h0 = h" by (simp_all add: key_match_def)
    ultimately show ?thesis by blast
  next
    case False
    then have "filter (key_match img h ty) (working ?c) = filter (key_match img h ty) (working conn)"
      by (simp add: filter_key_insert_or_replace)
    with Cons.prems(2) show ?thesis by simp
  qed
  from Cons.IH [OF run this] show ?case .
qed

lemma batch_execute_writes_all:
  assumes "batch_execute astype ty now items conn = (None, conn')"
    and "(img, bx, emb) \<in> set items" and "bbox_to_hash bx = Inr h"
  shows "\<exists>emb'. filter (key_match img h ty) (working conn') =
           [\<lparr>image_id = img, bbox_hash = h, embedding_type = ty,
             embedding = tobytes (map astype emb'), created_at = now\<rparr>]"
  using assms
proof (induction items arbitrary: conn)
  case Nil
  then show ?case by simp
next
  case (Cons item items)
  obtain img0 bx0 emb0 where item: "item = (img0, bx0, emb0)" by (cases item) auto
  from batch_execute_step [of astype ty now img0 bx0 emb0 items conn conn'] Cons.prems(1) item
  obtain h0 where h0: "bbox_to_hash bx0 = Inr h0"
    and run: "batch_execute astype ty now items
          (conn\<lparr>working := insert_or_replace
             \<lparr>image_id = img0, bbox_hash = h0, embedding_type = ty,
              embedding = tobytes (map astype emb0), created_at = now\<rparr> (working conn)\<rparr>)
        = (None, conn')"
    by blast
  let ?r = "\<lparr>image_id = img0, bbox_hash = h0, embedding_type = ty,
             embedding = tobytes (map astype emb0), created_at = now\<rparr>"
  let ?c = "conn\<lparr>working := insert_or_replace ?r (working conn)\<rparr>"
  show ?case
  proof (cases "(img, bx, emb) \<in> set items")
    case True
    from Cons.IH [OF run True Cons.prems(3)] show ?thesis .
  next
    case False
    with Cons.prems(2) item have eq: "img0 = img" "bx0 = bx" "emb0 = emb" by auto
    with h0 Cons.prems(3) have "h0 = h" by simp
    with eq have "filter (key_match img h ty) (working ?c) = [?r]"
      by (simp add: filter_key_insert_or_replace key_match_def)
    with eq \<open>h0 = h\<close> have "\<exists>emb'. filter (key_match img h ty) (working ?c) =
           [\<lparr>image_id = img, bbox_hash = h, embedding_type = ty,
             embedding = tobytes (map astype emb'), created_at = now\<rparr>]"
      by blast
    from batch_execute_keeps_key [OF run this] show ?thesis .
  qed
qed

text \<open>
  C7, as the code has it. The batch write is all or nothing: the inserts of one call run
  in one transaction that is committed once, after the loop. When the call raises, the
  database is what it was before the call; when it returns, every entry of the batch can
  be read back. The call returns exactly when every entry's bounding box has its four
  coordinates and every image id, and the clock, fits in SQLite's 64-bit integer. The
  claim that some failure leaves part of a batch written does not hold of this code.
\<close>

theorem batch_store_all_or_nothing:
  assumes "store_embeddings_batch astype db items ty now = (err, db')"
  shows "(err \<noteq> None \<longrightarrow> db' = db)
     \<and> (err = None \<longrightarrow>
          (\<forall>(img, bx, emb) \<in> set items.
             \<exists>emb'. get_embedding db' img bx ty = Inr (Some (map astype emb'))))
     \<and> (err = None \<longleftrightarrow>
          (\<forall>(img, bx, emb) \<in> set items.
             4 \<le> length bx \<and> sqlite_int_ok img \<and> sqlite_int_ok now))"
proof (cases "items = []")
  case True
  with assms show ?thesis by (simp add: store_embeddings_batch_def)
next
  case False
  obtain e conn where be: "batch_execute astype ty now items (connect db) = (e, conn)"
    by (cases "batch_execute astype ty now items (connect db)") auto
  have dur: "durable conn = db"
    using batch_execute_durable [of astype ty now items "connect db"] be
    by (simp add: connect_def)
  have okiff: "e = None \<longleftrightarrow>
      (\<forall>(img, bx, emb) \<in> set items. 4 \<le> length bx \<and> sqlite_int_ok img \<and> sqlite_int_ok now)"
    using batch_execute_ok_iff [of astype ty now items "connect db"] be by simp
  show ?thesis
  proof (cases e)
    case (Some x)
    with assms False be dur have res: "err = Some x" "db' = db"
      by (simp_all add: store_embeddings_batch_def close_def)
    from okiff Some have "\<not> (\<forall>(img, bx, emb) \<in> set items.
        4 \<le> length bx \<and> sqlite_int_ok img \<and> sqlite_int_ok now)" by simp
    with res show ?thesis by simp
  next
    case None
    with assms False be have res: "err = None" "db' = working conn"
      by (simp_all add: store_embeddings_batch_def close_def commit_def)
    have "\<exists>emb'. get_embedding db' img bx ty = Inr (Some (map astype emb'))"
      if "(img, bx, emb) \<in> set items" for img bx emb
    proof -
      from okiff None that have ok: "4 \<le> length bx" "sqlite_int_ok img" by auto
      then obtain h where h: "bbox_to_hash bx = Inr h" by (simp add: bbox_to_hash_def)
      from batch_execute_writes_all [OF be [unfolded None] that h]
      obtain emb' where "filter (key_match img h ty) (working conn) =
           [\<lparr>image_id = img, bbox_hash = h, embedding_type = ty,
             embedding = tobytes (map astype emb'), created_at = now\<rparr>]" by blast
      then have "get_embedding db' img bx ty = Inr (Some (map astype emb'))"
        using ok(2)
        by (simp add: get_embedding_def h connect_def select_embedding_def res
            frombuffer_tobytes)
      then show ?thesis by blast
    qed
    with res okiff None show ?thesis by auto
  qed
qed

theorem batch_store_partial_write_counterexample:
  "store_embeddings_batch (\<lambda>w. w) [] [(1, [0, 0, 10, 10], [0x3F800000]), (2, [0, 0], [0])]
      ''dinov3_reid_stoat'' 5 = (Some IndexError, [])
   \<and> store_embeddings_batch (\<lambda>w. w) []
        [(1, [0, 0, 10, 10], [0x3F800000]), (2 ^ 63, [0, 0, 10, 10], [0])]
      ''dinov3_reid_stoat'' 5 = (Some OverflowError, [])
   \<and> \<not> (\<exists>db items ty now e db'.
          store_embeddings_batch (\<lambda>w. w) db items ty now = (Some e, db') \<and> db' \<noteq> db)"
proof -
  have "store_embeddings_batch (\<lambda>w. w) [] [(1, [0, 0, 10, 10], [0x3F800000]), (2, [0, 0], [0])]
      ''dinov3_reid_stoat'' 5 = (Some IndexError, [])"
    by (simp add: store_embeddings_batch_def bbox_to_hash_def connect_def close_def
        execute_insert_or_replace_def sqlite_int_ok_def)
  moreover have "store_embeddings_batch (\<lambda>w. w) []
        [(1, [0, 0, 10, 10], [0x3F800000]), (2 ^ 63, [0, 0, 10, 10], [0])]
      ''dinov3_reid_stoat'' 5 = (Some OverflowError, [])"
    by (simp add: store_embeddings_batch_def bbox_to_hash_def connect_def close_def
        execute_insert_or_replace_def sqlite_int_ok_def)
  moreover have "\<not> (\<exists>db items ty now e db'.
          store_embeddings_batch (\<lambda>w. w :: float32) db items ty now = (Some e, db') \<and> db' \<noteq> db)"
  proof
    assume "\<exists>db items ty now e db'.
          store_embeddings_batch (\<lambda>w. w :: float32) db items ty now = (Some e, db') \<and> db' \<noteq> db"
    then obtain db items ty now e db' where
      *: "store_embeddings_batch (\<lambda>w. w :: float32) db items ty now = (Some e, db')" "db' \<noteq> db"
      by blast
    have "durable (snd (batch_execute (\<lambda>w. w :: float32) ty now items (connect db))) = db"
      by (simp add: batch_execute_durable connect_def)
    with * show False
      by (auto simp: store_embeddings_batch_def close_def split: if_splits prod.splits option.splits)
  qed
  ultimately show ?thesis by blast
qed

theorem batch_store_all_or_nothing_witness:
  "store_embeddings_batch (\<lambda>w. w) [] [(1, [0, 0, 10, 10], [0x3F800000]), (2, [0, 0], [0])]
      ''dinov3_reid_stoat'' 5 = (Some IndexError, [])
   \<and> store_embeddings_batch (\<lambda>w. w) [] [(1, [0, 0, 10, 10], [0x3F800000])] ''dinov3_reid_stoat'' 5 =
       (None, [\<lparr>image_id = 1, bbox_hash = ''0_0_10_10'', embedding_type = ''dinov3_reid_stoat'',
                embedding = [0, 0, 0x80, 0x3F], created_at = 5\<rparr>])
   \<and> get_embedding [\<lparr>image_id = 1, bbox_hash = ''0_0_10_10'', embedding_type = ''dinov3_reid_stoat'',
                embedding = [0, 0, 0x80, 0x3F], created_at = 5\<rparr>] 1 [0, 0, 10, 10]
         ''dinov3_reid_stoat'' = Inr (Some [0x3F800000])"
proof -
  have a: "store_embeddings_batch (\<lambda>w. w) [] [(1, [0, 0, 10, 10], [0x3F800000 :: float32]), (2, [0, 0], [0])]
      ''dinov3_reid_stoat'' 5 = (Some IndexError, [])"
    by (simp add: store_embeddings_batch_def bbox_to_hash_def connect_def close_def
        execute_insert_or_replace_def sqlite_int_ok_def)
  have b: "store_embeddings_batch (\<lambda>w. w) [] [(1, [0, 0, 10, 10], [0x3F800000 :: float32])] ''dinov3_reid_stoat'' 5 =
       (None, [\<lparr>image_id = 1, bbox_hash = ''0_0_10_10'', embedding_type = ''dinov3_reid_stoat'',
                embedding = [0, 0, 0x80, 0x3F], created_at = 5\<rparr>])"
    by (simp add: store_embeddings_batch_def bbox_to_hash_def py_int_def str_int_def
        str_nat.simps digit_char_def connect_def close_def commit_def
        execute_insert_or_replace_def insert_or_replace_def tobytes_def f32_bytes_def
        sqlite_int_ok_def)
  have c: "get_embedding [\<lparr>image_id = 1, bbox_hash = ''0_0_10_10'', embedding_type = ''dinov3_reid_stoat'',
                embedding = [0, 0, 0x80, 0x3F], created_at = 5\<rparr>] 1 [0, 0, 10, 10]
         ''dinov3_reid_stoat'' = Inr (Some [0x3F800000])"
    by (simp add: get_embedding_def bbox_to_hash_def py_int_def str_int_def str_nat.simps
        digit_char_def connect_def select_embedding_def key_match_def f32_of_bytes_def
        sqlite_int_ok_def)
  from batch_store_all_or_nothing [OF b] a b c show ?thesis by simp
qed

section \<open>Properties of the distance matrix\<close>

lemma dist_le_refl: "dist_le a a"
  by (cases a) simp_all

lemma dist_le_trans: "dist_le a b \<Longrightarrow> dist_le b c \<Longrightarrow> dist_le a c"
  by (cases a; cases b; cases c) simp_all

lemma dist_le_total: "dist_le a b \<or> dist_le b a"
  by (cases a; cases b) auto

lemma fold_dist_min_le_init: "dist_le (fold dist_min ys x) x"
proof (induction ys arbitrary: x)
  case Nil
  show ?case by (simp add: dist_le_refl)
next
  case (Cons y ys)
  have "dist_le (dist_min y x) x"
    using dist_le_total [of y x] by (auto simp: dist_min_def dist_le_refl)
  with Cons [of "dist_min y x"] show ?case by (auto intro: dist_le_trans)
qed

lemma fold_dist_min_le: "y \<in> set ys \<Longrightarrow> dist_le (fold dist_min ys x) y"
proof (induction ys arbitrary: x)
  case Nil
  then show ?case by simp
next
  case (Cons z zs)
  show ?case
  proof (cases "y = z")
    case True
    have "dist_le (dist_min z x) z"
      using dist_le_total [of z x] by (auto simp: dist_min_def dist_le_refl)
    with fold_dist_min_le_init [of zs "dist_min z x"] True show ?thesis
      by (auto intro: dist_le_trans)
  next
    case False
    with Cons show ?thesis by simp
  qed
qed

lemma fold_dist_min_mem: "fold dist_min ys x \<in> set (x # ys)"
proof (induction ys arbitrary: x)
  case Nil
  show ?case by simp
next
  case (Cons y ys)
  from Cons [of "dist_min y x"] show ?case by (auto simp: dist_min_def split: if_splits)
qed

lemma first_index_props:
  "m \<in> set xs \<Longrightarrow>
     first_index m xs < length xs \<and> xs ! first_index m xs = m \<and>
     (\<forall>j < first_index m xs. xs ! j \<noteq> m)"
proof (induction xs)
  case Nil
  then show ?case by simp
next
  case (Cons x xs)
  show ?case
  proof (cases "x = m")
    case True
    then show ?thesis by simp
  next
    case False
    with Cons have IH: "first_index m xs < length xs" "xs ! first_index m xs = m"
      "\<forall>j < first_index m xs. xs ! j \<noteq> m" by auto
    have "(x # xs) ! j \<noteq> m" if "j < Suc (first_index m xs)" for j
      using that False IH(3) by (cases j) auto
    with False IH show ?thesis by simp
  qed
qed

lemma np_argmin_nonempty:
  "row \<noteq> [] \<Longrightarrow> \<exists>i. np_argmin row = Inr i \<and> i < length row \<and>
      (\<forall>j < length row. dist_le (row ! i) (row ! j)) \<and> (\<forall>j < i. row ! j \<noteq> row ! i)"
proof -
  assume "row \<noteq> []"
  then obtain x ys where row: "row = x # ys" by (cases row) auto
  let ?m = "fold dist_min ys x"
  have arg: "np_argmin row = Inr (first_index ?m row)"
    by (simp add: np_argmin_def np_min_def row)
  have mem: "?m \<in> set row" using fold_dist_min_mem [of ys x] by (simp add: row)
  note fi = first_index_props [OF mem]
  have le: "dist_le ?m y" if "y \<in> set row" for y
    using that fold_dist_min_le [of y ys x] fold_dist_min_le_init [of ys x] by (auto simp: row)
  have "\<forall>j < length row. dist_le (row ! first_index ?m row) (row ! j)"
    using fi le by simp
  moreover have "\<forall>j < first_index ?m row. row ! j \<noteq> row ! first_index ?m row"
    using fi by simp
  ultimately show ?thesis using arg fi by blast
qed

lemma mask_loop_result:
  assumes "distinct rs" and "\<forall>r \<in> set rs. r < length D \<and> D ! r \<noteq> []"
  shows "\<exists>D'. mask_loop rs D = Inr D' \<and> length D' = length D \<and>
           (\<forall>r < length D. if r \<in> set rs
              then (\<exists>i. np_argmin (D ! r) = Inr i \<and> D' ! r = (D ! r)[i := PInf])
              else D' ! r = D ! r)"
  using assms
proof (induction rs arbitrary: D)
  case Nil
  then show ?case by simp
next
  case (Cons r rs)
  from Cons.prems have r: "r < length D" "D ! r \<noteq> []" by auto
  from np_argmin_nonempty [OF r(2)] obtain i where i: "np_argmin (D ! r) = Inr i" by blast
  let ?D = "D[r := (D ! r)[i := PInf]]"
  have step: "mask_loop (r # rs) D = mask_loop rs ?D" using i by simp
  have "?D ! q = D ! q" if "q \<in> set rs" for q
  proof -
    from that Cons.prems(1) have "r \<noteq> q" by auto
    then show ?thesis by (rule nth_list_update_neq)
  qed
  then have pre: "distinct rs" "\<forall>q \<in> set rs. q < length ?D \<and> ?D ! q \<noteq> []"
    using Cons.prems by auto
  from Cons.IH [OF pre] obtain D' where D': "mask_loop rs ?D = Inr D'" "length D' = length ?D"
    "\<forall>q < length ?D. if q \<in> set rs
       then (\<exists>i. np_argmin (?D ! q) = Inr i \<and> D' ! q = (?D ! q)[i := PInf])
       else D' ! q = ?D ! q" by blast
  have "if q \<in> set (r # rs)
          then (\<exists>i. np_argmin (D ! q) = Inr i \<and> D' ! q = (D ! q)[i := PInf])
          else D' ! q = D ! q" if q: "q < length D" for q
  proof (cases "q = r")
    case True
    with Cons.prems(1) have "q \<notin> set rs" by simp
    with D'(3) q have "D' ! q = ?D ! q" by simp
    with True r i show ?thesis by simp
  next
    case False
    then have "?D ! q = D ! q" by simp
    with D'(3) q False show ?thesis by auto
  qed
  with step D' show ?case by simp
qed

lemma compute_distance_matrix_rows:
  assumes "length (matmul_T np E) = length E"
    and "\<forall>row \<in> set (matmul_T np E). length row = length E"
    and "r < length E"
  shows "\<exists>D i. compute_distance_matrix np E = Inr D \<and> length D = length E \<and> i < length E \<and>
           D ! r = (map (\<lambda>s. Fin (rnd np (1 - s))) (matmul_T np E ! r))[i := PInf] \<and>
           (\<forall>j < length E. rnd np (1 - matmul_T np E ! r ! i) \<le> rnd np (1 - matmul_T np E ! r ! j)) \<and>
           (\<forall>j < i. rnd np (1 - matmul_T np E ! r ! i) < rnd np (1 - matmul_T np E ! r ! j))"
proof -
  let ?S = "matmul_T np E"
  let ?D0 = "map (map (\<lambda>s. Fin (rnd np (1 - s)))) ?S"
  have len: "length ?D0 = length E" using assms(1) by simp
  have rowlen: "length (?S ! q) = length E" if "q < length E" for q
    using that assms(1,2) by simp
  have row: "?D0 ! q = map (\<lambda>s. Fin (rnd np (1 - s))) (?S ! q)" if "q < length E" for q
    using that assms(1) by simp
  have ne: "\<forall>q \<in> set [0..<length ?D0]. q < length ?D0 \<and> ?D0 ! q \<noteq> []"
  proof
    fix q assume "q \<in> set [0..<length ?D0]"
    then have q: "q < length E" using len by simp
    with rowlen [OF q] have "?S ! q \<noteq> []" by auto
    with q len show "q < length ?D0 \<and> ?D0 ! q \<noteq> []" by (simp add: row [OF q])
  qed
  from mask_loop_result [OF distinct_upt ne] obtain D where
    D: "mask_loop [0..<length ?D0] ?D0 = Inr D" "length D = length ?D0"
    "\<forall>q < length ?D0. if q \<in> set [0..<length ?D0]
       then (\<exists>i. np_argmin (?D0 ! q) = Inr i \<and> D ! q = (?D0 ! q)[i := PInf])
       else D ! q = ?D0 ! q" by blast
  from D(3) assms(3) len obtain i where i: "np_argmin (?D0 ! r) = Inr i"
    "D ! r = (?D0 ! r)[i := PInf]" by auto
  have r0: "?D0 ! r = map (\<lambda>s. Fin (rnd np (1 - s))) (?S ! r)" by (rule row [OF assms(3)])
  have "?D0 ! r \<noteq> []" using ne assms(3) len by simp
  from np_argmin_nonempty [OF this] i(1) have p: "i < length (?D0 ! r)"
    "\<forall>j < length (?D0 ! r). dist_le (?D0 ! r ! i) (?D0 ! r ! j)"
    "\<forall>j < i. ?D0 ! r ! j \<noteq> ?D0 ! r ! i" by auto
  have il: "i < length E" using p(1) rowlen [OF assms(3)] by (simp add: r0)
  have a: "\<forall>j < length E. rnd np (1 - ?S ! r ! i) \<le> rnd np (1 - ?S ! r ! j)"
    using p(2) il rowlen [OF assms(3)] by (simp add: r0)
  have b: "\<forall>j < i. rnd np (1 - ?S ! r ! i) < rnd np (1 - ?S ! r ! j)"
  proof (intro allI impI)
    fix j assume j: "j < i"
    with il have jl: "j < length E" by simp
    from p(3) j have "?D0 ! r ! j \<noteq> ?D0 ! r ! i" by simp
    with jl il rowlen [OF assms(3)]
    have "rnd np (1 - ?S ! r ! j) \<noteq> rnd np (1 - ?S ! r ! i)" by (simp add: r0)
    moreover from a jl have "rnd np (1 - ?S ! r ! i) \<le> rnd np (1 - ?S ! r ! j)" by simp
    ultimately show "rnd np (1 - ?S ! r ! i) < rnd np (1 - ?S ! r ! j)" by simp
  qed
  have "compute_distance_matrix np E = Inr D"
    using D(1) by (simp add: compute_distance_matrix_def Let_def)
  with D(2) len il i(2) a b show ?thesis by (auto simp: r0)
qed

lemma compute_distance_matrix_example:
  "compute_distance_matrix
     \<lparr>dtype = Float32, rnd = (\<lambda>x. x),
      matmul_T = (\<lambda>E. map (\<lambda>u. map (\<lambda>v. sum_list (map2 (*) u v)) E) E)\<rparr>
     [[1, 0], [1, 0], [0, 1]] =
     Inr [[PInf, Fin 0, Fin 1], [PInf, Fin 0, Fin 1], [Fin 1, Fin 1, PInf]]"
  by code_simp

lemma compute_distance_matrix_total:
  assumes "length (matmul_T np E) = length E"
    and "\<forall>row \<in> set (matmul_T np E). length row = length E"
  shows "\<exists>D. compute_distance_matrix np E = Inr D \<and> length D = length E"
proof (cases "E = []")
  case True
  with assms(1) show ?thesis by (simp add: compute_distance_matrix_def)
next
  case False
  then have "0 < length E" by simp
  from compute_distance_matrix_rows [OF assms this] show ?thesis by blast
qed

lemma one_masked_cell:
  assumes "i < length xs"
  shows "length (filter (\<lambda>x. x = PInf) ((map (\<lambda>v. Fin (f v)) xs)[i := PInf])) = 1"
proof -
  have "filter (\<lambda>x. x = PInf) (map (\<lambda>v. Fin (f v)) ys) = []" for ys
    by (induction ys) simp_all
  then have "filter (\<lambda>x. x = PInf) (take i (map (\<lambda>v. Fin (f v)) xs)) = []"
    "filter (\<lambda>x. x = PInf) (drop (Suc i) (map (\<lambda>v. Fin (f v)) xs)) = []"
    by (simp_all add: take_map drop_map)
  with assms show ?thesis by (simp add: upd_conv_take_nth_drop)
qed

text \<open>
  C2. For every list \<open>E\<close> of \<open>N\<close> embeddings the distance-matrix builder returns a matrix
  with one row per embedding. Row \<open>r\<close> is the row of \<open>1 - E E\<^sup>T\<close>, computed in the
  floating-point arithmetic of the array (the product \<open>S = E E\<^sup>T\<close> is NumPy's, an
  \<open>N \<times> N\<close> array; each cell is the rounded difference \<open>rnd (1 - S\<^sub>r\<^sub>j)\<close>), with exactly
  one cell overwritten by \<open>+inf\<close>: the cell at the first index \<open>i\<close> that holds the row's
  minimum (no other cell is smaller, every cell before it is strictly larger). The index
  \<open>r\<close> plays no part: for the three embeddings \<open>(1,0)\<close>, \<open>(1,0)\<close>, \<open>(0,1)\<close>, on which
  the float operations are exact, rows 0 and 1 are both masked at index 0, row 0 keeps
  the zero distance at index 1 and row 1 keeps its own diagonal cell.
\<close>

theorem distance_matrix_masks_first_minimum:
  assumes "length (matmul_T np E) = length E"
    and "\<forall>row \<in> set (matmul_T np E). length row = length E"
  shows "(\<exists>D. compute_distance_matrix np E = Inr D \<and> length D = length E)
   \<and> (r < length E \<longrightarrow>
        (\<exists>D i. compute_distance_matrix np E = Inr D \<and> i < length E \<and> length (D ! r) = length E \<and>
           (\<forall>j < length E. D ! r ! j =
              (if j = i then PInf else Fin (rnd np (1 - matmul_T np E ! r ! j)))) \<and>
           (\<forall>j < length E. rnd np (1 - matmul_T np E ! r ! i) \<le> rnd np (1 - matmul_T np E ! r ! j)) \<and>
           (\<forall>j < i. rnd np (1 - matmul_T np E ! r ! i) < rnd np (1 - matmul_T np E ! r ! j)) \<and>
           length (filter (\<lambda>x. x = PInf) (D ! r)) = 1))
   \<and> compute_distance_matrix
        \<lparr>dtype = Float32, rnd = (\<lambda>x. x),
         matmul_T = (\<lambda>E. map (\<lambda>u. map (\<lambda>v. sum_list (map2 (*) u v)) E) E)\<rparr>
        [[1, 0], [1, 0], [0, 1]] =
        Inr [[PInf, Fin 0, Fin 1], [PInf, Fin 0, Fin 1], [Fin 1, Fin 1, PInf]]"
proof -
  let ?S = "matmul_T np E"
  have rows: "\<exists>D i. compute_distance_matrix np E = Inr D \<and> i < length E \<and> length (D ! r) = length E \<and>
           (\<forall>j < length E. D ! r ! j = (if j = i then PInf else Fin (rnd np (1 - ?S ! r ! j)))) \<and>
           (\<forall>j < length E. rnd np (1 - ?S ! r ! i) \<le> rnd np (1 - ?S ! r ! j)) \<and>
           (\<forall>j < i. rnd np (1 - ?S ! r ! i) < rnd np (1 - ?S ! r ! j)) \<and>
           length (filter (\<lambda>x. x = PInf) (D ! r)) = 1" if r: "r < length E"
  proof -
    from compute_distance_matrix_rows [OF assms r] obtain D i where
      D: "compute_distance_matrix np E = Inr D" "i < length E"
         "D ! r = (map (\<lambda>s. Fin (rnd np (1 - s))) (?S ! r))[i := PInf]"
         "\<forall>j < length E. rnd np (1 - ?S ! r ! i) \<le> rnd np (1 - ?S ! r ! j)"
         "\<forall>j < i. rnd np (1 - ?S ! r ! i) < rnd np (1 - ?S ! r ! j)" by blast
    have rl: "length (?S ! r) = length E" using assms r by simp
    have cells: "\<forall>j < length E. D ! r ! j = (if j = i then PInf else Fin (rnd np (1 - ?S ! r ! j)))"
      using D(2) rl by (simp add: D(3) nth_list_update)
    have one: "length (filter (\<lambda>x. x = PInf) (D ! r)) = 1"
      unfolding D(3) using D(2) rl by (intro one_masked_cell) simp
    have len: "length (D ! r) = length E" using rl by (simp add: D(3))
    from D(1,2) len cells D(4,5) one show ?thesis by auto
  qed
  from compute_distance_matrix_total [OF assms] rows compute_distance_matrix_example
  show ?thesis by blast
qed

theorem distance_matrix_masks_first_minimum_witness:
  "length (matmul_T \<lparr>dtype = Float32, rnd = (\<lambda>x. x),
         matmul_T = (\<lambda>E. map (\<lambda>u. map (\<lambda>v. sum_list (map2 (*) u v)) E) E)\<rparr>
        [[1, 0], [1, 0], [0, 1]]) = length [[1, 0], [1, 0], [0, 1 :: real]]
   \<and> list_all (\<lambda>row. length row = length [[1, 0], [1, 0], [0, 1 :: real]])
        (matmul_T \<lparr>dtype = Float32, rnd = (\<lambda>x. x),
         matmul_T = (\<lambda>E. map (\<lambda>u. map (\<lambda>v. sum_list (map2 (*) u v)) E) E)\<rparr>
        [[1, 0], [1, 0], [0, 1]])
   \<and> (1 :: nat) < length [[1, 0], [1, 0], [0, 1 :: real]]
   \<and> (\<exists>D. compute_distance_matrix \<lparr>dtype = Float32, rnd = (\<lambda>x. x),
         matmul_T = (\<lambda>E. map (\<lambda>u. map (\<lambda>v. sum_list (map2 (*) u v)) E) E)\<rparr>
        [[1, 0], [1, 0], [0, 1]] = Inr D
          \<and> D ! 1 ! 0 = PInf \<and> D ! 1 ! 1 = Fin 0 \<and> D ! 0 ! 0 = PInf \<and> D ! 0 ! 1 = Fin 0
          \<and> length (filter (\<lambda>x. x = PInf) (D ! 1)) = 1)"
proof -
  let ?np = "\<lparr>dtype = Float32, rnd = (\<lambda>x. x),
         matmul_T = (\<lambda>E. map (\<lambda>u. map (\<lambda>v. sum_list (map2 (*) u v)) E) E)\<rparr> :: np_float"
  let ?E = "[[1, 0], [1, 0], [0, 1 :: real]]"
  have s1: "length (matmul_T ?np ?E) = length ?E" by simp
  have s2: "\<forall>row \<in> set (matmul_T ?np ?E). length row = length ?E" by simp
  have h: "(1 :: nat) < length ?E" by simp
  from distance_matrix_masks_first_minimum [OF s1 s2, of 1] h
  obtain D where D: "compute_distance_matrix ?np ?E = Inr D"
    "length (filter (\<lambda>x. x = PInf) (D ! 1)) = 1" by blast
  from D(1) have "D = [[PInf, Fin 0, Fin 1], [PInf, Fin 0, Fin 1], [Fin 1, Fin 1, PInf]]"
    by (simp add: compute_distance_matrix_example)
  with h D s1 show ?thesis by (simp add: list_all_iff)
qed

section \<open>Properties of the clusterer\<close>

lemma length_fancy_set: "length (fancy_set keys idxs v) = length keys"
  unfolding fancy_set_def by (induction idxs arbitrary: keys) simp_all

lemma nth_fancy_set:
  "j < length keys \<Longrightarrow> fancy_set keys idxs v ! j = (if j \<in> set idxs then v else keys ! j)"
  unfolding fancy_set_def
proof (induction idxs arbitrary: keys)
  case Nil
  then show ?case by simp
next
  case (Cons i idxs)
  from Cons.prems have "j < length (keys[i := v])" by simp
  from Cons.IH [OF this] Cons.prems show ?case
    by (auto simp: nth_list_update)
qed

lemma set_candidates_of:
  "set (candidates_of np row m) = {j. j < length row \<and> near np (row ! j) m}"
  by (auto simp: candidates_of_def)

lemma np_min_nonempty:
  "row \<noteq> [] \<Longrightarrow> \<exists>m. np_min row = Inr m \<and> m \<in> set row \<and> (\<forall>x \<in> set row. dist_le m x)"
proof -
  assume "row \<noteq> []"
  then obtain x ys where row: "row = x # ys" by (cases row) auto
  have "dist_le (fold dist_min ys x) y" if "y \<in> set row" for y
    using that fold_dist_min_le [of y ys x] fold_dist_min_le_init [of ys x] by (auto simp: row)
  with fold_dist_min_mem [of ys x] show ?thesis by (simp add: np_min_def row)
qed

lemma np_max_int_nonempty: "keys \<noteq> [] \<Longrightarrow> np_max_int keys = Inr (Max (set keys))"
  using Max.set_eq_fold [of "hd keys" "tl keys"]
  by (cases keys) (simp_all add: np_max_int_def)

lemma np_min_int_nonempty: "keys \<noteq> [] \<Longrightarrow> np_min_int keys = Inr (Min (set keys))"
  using Min.set_eq_fold [of "hd keys" "tl keys"]
  by (cases keys) (simp_all add: np_min_int_def)

lemma map_nth_filter_positions:
  "map (\<lambda>p. xs ! p) (filter (\<lambda>p. P (xs ! p)) [0..<length xs]) = filter P xs"
proof (induction xs rule: rev_induct)
  case Nil
  show ?case by simp
next
  case (snoc x xs)
  have a: "filter (\<lambda>p. P ((xs @ [x]) ! p)) [0..<length xs] = filter (\<lambda>p. P (xs ! p)) [0..<length xs]"
    by (intro filter_cong) (auto simp: nth_append)
  have b: "map (\<lambda>p. (xs @ [x]) ! p) (filter (\<lambda>p. P (xs ! p)) [0..<length xs]) =
           map (\<lambda>p. xs ! p) (filter (\<lambda>p. P (xs ! p)) [0..<length xs])"
    by (intro map_cong) (auto simp: nth_append)
  show ?case using snoc by (simp add: a b)
qed

lemma selected_indices_eq:
  "map (\<lambda>p. C ! p) (filter (\<lambda>p. map f C ! p \<noteq> v) [0..<length (map f C)]) = filter (\<lambda>c. f c \<noteq> v) C"
proof -
  have "filter (\<lambda>p. map f C ! p \<noteq> v) [0..<length (map f C)] =
        filter (\<lambda>p. f (C ! p) \<noteq> v) [0..<length C]"
    by (intro filter_cong) auto
  then show ?thesis
    using map_nth_filter_positions [of C "\<lambda>c. f c \<noteq> v"] by simp
qed

lemma cluster_row_branches:
  assumes r: "r < length keys" and sq: "length (dist_mat ! r) = length keys"
  shows "\<exists>m. np_min (dist_mat ! r) = Inr m \<and> m \<in> set (dist_mat ! r) \<and>
           (\<forall>x \<in> set (dist_mat ! r). dist_le m x) \<and>
           cluster_row np dist_mat keys r = Inr
             (if keys ! r \<noteq> - 1
              then fancy_set keys (candidates_of np (dist_mat ! r) m) (keys ! r)
              else if \<forall>c \<in> set (candidates_of np (dist_mat ! r) m). keys ! c = - 1
              then fancy_set (keys[r := Max (set keys) + 1]) (candidates_of np (dist_mat ! r) m)
                     (Max (set keys) + 1)
              else fancy_set
                     (keys[r := Min {keys ! c |c. c \<in> set (candidates_of np (dist_mat ! r) m) \<and> keys ! c \<noteq> - 1}])
                     (filter (\<lambda>c. keys ! c \<noteq>
                         Min {keys ! c |c. c \<in> set (candidates_of np (dist_mat ! r) m) \<and> keys ! c \<noteq> - 1})
                       (candidates_of np (dist_mat ! r) m))
                     (Min {keys ! c |c. c \<in> set (candidates_of np (dist_mat ! r) m) \<and> keys ! c \<noteq> - 1}))"
proof -
  let ?row = "dist_mat ! r"
  have "?row \<noteq> []" using r sq by auto
  from np_min_nonempty [OF this] obtain m where m: "np_min ?row = Inr m" "m \<in> set ?row"
    "\<forall>x \<in> set ?row. dist_le m x" by blast
  let ?C = "candidates_of np ?row m"
  have inr: "\<not> list_ex (\<lambda>j. length keys \<le> j) ?C"
    using sq by (auto simp: list_ex_iff set_candidates_of)
  have kne: "keys \<noteq> []" using r by auto
  note mx = np_max_int_nonempty [OF kne]
  let ?ck = "map (\<lambda>j. keys ! j) ?C"
  have all: "list_all (\<lambda>k. k = - 1) ?ck \<longleftrightarrow> (\<forall>c \<in> set ?C. keys ! c = - 1)"
    by (simp add: list_all_iff)
  have ex: "list_ex (\<lambda>k. k \<noteq> - 1) ?ck \<longleftrightarrow> \<not> (\<forall>c \<in> set ?C. keys ! c = - 1)"
    by (simp add: list_ex_iff)
  have setf: "set (filter (\<lambda>k. k \<noteq> - 1) ?ck) = {keys ! c |c. c \<in> set ?C \<and> keys ! c \<noteq> - 1}"
    by auto
  have mn: "np_min_int (filter (\<lambda>k. k \<noteq> - 1) ?ck) =
      Inr (Min {keys ! c |c. c \<in> set ?C \<and> keys ! c \<noteq> - 1})"
    if "\<not> (\<forall>c \<in> set ?C. keys ! c = - 1)"
  proof -
    from that have "filter (\<lambda>k. k \<noteq> - 1) ?ck \<noteq> []" by (auto simp: filter_empty_conv)
    from np_min_int_nonempty [OF this] show ?thesis by (simp only: setf)
  qed
  have "cluster_row np dist_mat keys r = Inr
             (if keys ! r \<noteq> - 1
              then fancy_set keys ?C (keys ! r)
              else if \<forall>c \<in> set ?C. keys ! c = - 1
              then fancy_set (keys[r := Max (set keys) + 1]) ?C (Max (set keys) + 1)
              else fancy_set
                     (keys[r := Min {keys ! c |c. c \<in> set ?C \<and> keys ! c \<noteq> - 1}])
                     (filter (\<lambda>c. keys ! c \<noteq> Min {keys ! c |c. c \<in> set ?C \<and> keys ! c \<noteq> - 1}) ?C)
                     (Min {keys ! c |c. c \<in> set ?C \<and> keys ! c \<noteq> - 1}))"
  proof (cases "keys ! r \<noteq> - 1")
    case True
    then show ?thesis
      unfolding cluster_row_def Let_def by (simp add: m(1) inr mx)
  next
    case unassigned: False
    show ?thesis
    proof (cases "\<forall>c \<in> set ?C. keys ! c = - 1")
      case True
      with unassigned all show ?thesis
        unfolding cluster_row_def Let_def by (simp add: m(1) inr mx)
    next
      case False
      from False all have na: "\<not> list_all (\<lambda>k. k = - 1) ?ck" by simp
      from False ex have ne: "list_ex (\<lambda>k. k \<noteq> - 1) ?ck" by simp
      show ?thesis
        unfolding cluster_row_def Let_def
        by (simp add: m(1) inr mx selected_indices_eq unassigned na ne mn [OF False] False
            del: length_map)
    qed
  qed
  with m show ?thesis by blast
qed

lemma row_loop_append:
  "row_loop np dist_mat (rs @ [n]) keys =
     (case row_loop np dist_mat rs keys of Inl e \<Rightarrow> Inl e | Inr ks \<Rightarrow> cluster_row np dist_mat ks n)"
  by (induction rs arbitrary: keys) (auto split: sum.splits)







lemma cluster_row_invariant:
  assumes n: "n < length keys" and sq: "length (dist_mat ! n) = length keys"
    and lb: "\<forall>k \<in> set keys. - 1 \<le> k"
  shows "\<exists>keys'. cluster_row np dist_mat keys n = Inr keys' \<and> length keys' = length keys \<and>
           (\<forall>k \<in> set keys'. - 1 \<le> k) \<and> 0 \<le> keys' ! n \<and>
           (\<forall>j < length keys. 0 \<le> keys ! j \<longrightarrow> 0 \<le> keys' ! j)"
proof -
  from cluster_row_branches [OF n sq] obtain m where
    cr: "cluster_row np dist_mat keys n = Inr
             (if keys ! n \<noteq> - 1
              then fancy_set keys (candidates_of np (dist_mat ! n) m) (keys ! n)
              else if \<forall>c \<in> set (candidates_of np (dist_mat ! n) m). keys ! c = - 1
              then fancy_set (keys[n := Max (set keys) + 1]) (candidates_of np (dist_mat ! n) m)
                     (Max (set keys) + 1)
              else fancy_set
                     (keys[n := Min {keys ! c |c. c \<in> set (candidates_of np (dist_mat ! n) m) \<and> keys ! c \<noteq> - 1}])
                     (filter (\<lambda>c. keys ! c \<noteq>
                         Min {keys ! c |c. c \<in> set (candidates_of np (dist_mat ! n) m) \<and> keys ! c \<noteq> - 1})
                       (candidates_of np (dist_mat ! n) m))
                     (Min {keys ! c |c. c \<in> set (candidates_of np (dist_mat ! n) m) \<and> keys ! c \<noteq> - 1}))"
    by blast
  let ?C = "candidates_of np (dist_mat ! n) m"
  let ?S = "{keys ! c |c. c \<in> set ?C \<and> keys ! c \<noteq> - 1}"
  have Cb: "\<forall>c \<in> set ?C. c < length keys" by (simp add: set_candidates_of sq)
  have kn: "- 1 \<le> keys ! n" using lb n by simp
  have key_lb: "- 1 \<le> keys ! j" if "j < length keys" for j using lb that by simp
  have generic: "\<exists>keys'. P keys' \<and> length keys' = length keys \<and>
           (\<forall>k \<in> set keys'. - 1 \<le> k) \<and> 0 \<le> keys' ! n \<and>
           (\<forall>j < length keys. 0 \<le> keys ! j \<longrightarrow> 0 \<le> keys' ! j)"
    if P: "P (fancy_set (keys[n := v]) idxs v)" and v: "0 \<le> v" for P v idxs
  proof -
    let ?k = "fancy_set (keys[n := v]) idxs v"
    have len: "length ?k = length keys" by (simp add: length_fancy_set)
    have nth: "?k ! j = (if j \<in> set idxs \<or> j = n then v else keys ! j)" if "j < length keys" for j
      using that by (simp add: nth_fancy_set nth_list_update)
    have "- 1 \<le> k" if "k \<in> set ?k" for k
    proof -
      from that obtain j where j: "j < length ?k" "?k ! j = k" by (auto simp: in_set_conv_nth)
      with len nth [of j] key_lb [of j] v show ?thesis by (auto split: if_splits)
    qed
    moreover have "0 \<le> ?k ! n" using nth [OF n] v by simp
    moreover have "\<forall>j < length keys. 0 \<le> keys ! j \<longrightarrow> 0 \<le> ?k ! j"
      using nth v by simp
    ultimately show ?thesis using P len by blast
  qed
  show ?thesis
  proof (cases "keys ! n \<noteq> - 1")
    case True
    with kn have v: "0 \<le> keys ! n" by simp
    have "keys[n := keys ! n] = keys" by simp
    with cr True have "cluster_row np dist_mat keys n = Inr (fancy_set (keys[n := keys ! n]) ?C (keys ! n))"
      by simp
    from generic [of "\<lambda>k. cluster_row np dist_mat keys n = Inr k", OF this v] show ?thesis .
  next
    case unassigned: False
    show ?thesis
    proof (cases "\<forall>c \<in> set ?C. keys ! c = - 1")
      case True
      have "keys ! n \<le> Max (set keys)" using n by simp
      with kn have v: "0 \<le> Max (set keys) + 1" by simp
      from cr unassigned True
      have "cluster_row np dist_mat keys n = Inr (fancy_set (keys[n := Max (set keys) + 1]) ?C (Max (set keys) + 1))"
        by simp
      from generic [of "\<lambda>k. cluster_row np dist_mat keys n = Inr k", OF this v] show ?thesis .
    next
      case False
      have fin: "finite ?S" by simp
      from False have ne: "?S \<noteq> {}" by auto
      from Min_in [OF fin ne] obtain c where c: "c \<in> set ?C" "keys ! c \<noteq> - 1" "Min ?S = keys ! c"
        by auto
      with Cb key_lb [of c] have v: "0 \<le> Min ?S" by auto
      from cr unassigned False
      have "cluster_row np dist_mat keys n = Inr (fancy_set (keys[n := Min ?S])
              (filter (\<lambda>c. keys ! c \<noteq> Min ?S) ?C) (Min ?S))"
        by simp
      from generic [of "\<lambda>k. cluster_row np dist_mat keys n = Inr k", OF this v] show ?thesis .
    qed
  qed
qed

lemma row_loop_invariant:
  assumes sq: "\<forall>r < length dist_mat. length (dist_mat ! r) = length dist_mat"
    and n: "n \<le> length dist_mat"
  shows "\<exists>keys. row_loop np dist_mat [0..<n] (replicate (length dist_mat) (- 1)) = Inr keys \<and>
           length keys = length dist_mat \<and> (\<forall>k \<in> set keys. - 1 \<le> k) \<and>
           (\<forall>j < n. 0 \<le> keys ! j)"
  using n
proof (induction n)
  case 0
  show ?case by simp
next
  case (Suc n)
  then obtain keys where k: "row_loop np dist_mat [0..<n] (replicate (length dist_mat) (- 1)) = Inr keys"
    "length keys = length dist_mat" "\<forall>k \<in> set keys. - 1 \<le> k" "\<forall>j < n. 0 \<le> keys ! j"
    by auto
  have n: "n < length keys" using Suc.prems k(2) by simp
  have "length (dist_mat ! n) = length keys" using sq n k(2) by simp
  from cluster_row_invariant [OF n this k(3)] obtain keys' where
    k': "cluster_row np dist_mat keys n = Inr keys'" "length keys' = length keys"
      "\<forall>k \<in> set keys'. - 1 \<le> k" "0 \<le> keys' ! n"
      "\<forall>j < length keys. 0 \<le> keys ! j \<longrightarrow> 0 \<le> keys' ! j" by blast
  have "row_loop np dist_mat [0..<Suc n] (replicate (length dist_mat) (- 1)) = Inr keys'"
    using row_loop_append [of np dist_mat "[0..<n]" n] k(1) k'(1) by simp
  moreover have "\<forall>j < Suc n. 0 \<le> keys' ! j"
  proof (intro allI impI)
    fix j assume "j < Suc n"
    then consider "j = n" | "j < n" by linarith
    then show "0 \<le> keys' ! j"
    proof cases
      case 1
      with k'(4) show ?thesis by simp
    next
      case 2
      with k(4) k'(5) n show ?thesis by simp
    qed
  qed
  ultimately show ?case using k' k(2) by auto
qed

lemma compact_loop_eq:
  "aid \<notin> fst ` set out \<Longrightarrow> (\<forall>a \<in> fst ` set out. a < aid) \<Longrightarrow>
   compact_loop keys ks aid out =
     out @ zip [aid..<aid + length (filter (\<lambda>k. k \<in> set keys) ks)]
               (map (where_eq keys) (filter (\<lambda>k. k \<in> set keys) ks))"
proof (induction ks arbitrary: aid out)
  case Nil
  then show ?case by simp
next
  case (Cons k ks)
  show ?case
  proof (cases "k \<in> set keys")
    case False
    with Cons show ?thesis by simp
  next
    case True
    let ?out = "out @ [(aid, where_eq keys k)]"
    have a: "aid + 1 \<notin> fst ` set ?out" using Cons.prems by auto
    have b: "\<forall>a \<in> fst ` set ?out. a < aid + 1" using Cons.prems by auto
    let ?n = "length (filter (\<lambda>k. k \<in> set keys) ks)"
    have u: "[aid..<Suc (aid + ?n)] = aid # [Suc aid..<Suc (aid + ?n)]"
      by (rule upt_conv_Cons) simp
    have step: "compact_loop keys (k # ks) aid out = compact_loop keys ks (aid + 1) ?out"
      using True Cons.prems(1) by simp
    have ih: "compact_loop keys ks (aid + 1) ?out =
        ?out @ zip [aid + 1..<aid + 1 + ?n] (map (where_eq keys) (filter (\<lambda>k. k \<in> set keys) ks))"
      by (rule Cons.IH [OF a b])
    have f: "filter (\<lambda>k. k \<in> set keys) (k # ks) = k # filter (\<lambda>k. k \<in> set keys) ks"
      using True by simp
    show ?thesis unfolding step ih f by (simp del: upt_Suc add: u)
  qed
qed

lemma filter_upto_sorted_list:
  assumes "keys \<noteq> []"
  shows "filter (\<lambda>k. k \<in> set keys) [Min (set keys)..Max (set keys)] = sorted_list_of_set (set keys)"
proof -
  let ?l = "filter (\<lambda>k. k \<in> set keys) [Min (set keys)..Max (set keys)]"
  have s: "sorted ?l" by (simp add: sorted_wrt_filter)
  have d: "distinct ?l" by simp
  have "set ?l = set keys" using assms by auto
  with s d show ?thesis
    by (metis sorted_distinct_set_unique sorted_list_of_set.sorted_sorted_key_list_of_set
        sorted_list_of_set.distinct_sorted_key_list_of_set sorted_list_of_set.set_sorted_key_list_of_set
        List.finite_set)
qed

lemma process_dist_mat_v2_eq:
  assumes "row_loop np dist_mat [0..<length dist_mat] (replicate (length dist_mat) (- 1)) = Inr keys"
    and "keys \<noteq> []"
  shows "process_dist_mat_v2 np dist_mat =
           Inr (zip [0..<card (set keys)] (map (where_eq keys) (sorted_list_of_set (set keys))))"
proof -
  have "compact_loop keys [Min (set keys)..Max (set keys)] 0 [] =
      zip [0..<length (sorted_list_of_set (set keys))] (map (where_eq keys) (sorted_list_of_set (set keys)))"
    using compact_loop_eq [of 0 "[]" keys "[Min (set keys)..Max (set keys)]"]
    by (simp add: filter_upto_sorted_list [OF assms(2)])
  then show ?thesis
    using assms
    by (simp add: process_dist_mat_v2_def Let_def np_min_int_nonempty np_max_int_nonempty)
qed

lemma compaction_props:
  fixes keys :: "int list"
  defines "sl \<equiv> sorted_list_of_set (set keys)"
  defines "out \<equiv> zip [0..<card (set keys)] (map (where_eq keys) sl)"
  assumes ne: "keys \<noteq> []"
  shows "0 < card (set keys)"
    and "map fst out = [0..<card (set keys)]"
    and "\<forall>a < card (set keys). snd (out ! a) \<noteq> [] \<and>
           snd (out ! a) = filter (\<lambda>i. keys ! i = sl ! a) [0..<length keys]"
    and "\<forall>i < length keys. \<exists>!a. a < card (set keys) \<and> i \<in> set (snd (out ! a))"
    and "\<forall>a < card (set keys). \<forall>b < card (set keys).
           \<forall>i \<in> set (snd (out ! a)). \<forall>j \<in> set (snd (out ! b)). (a < b) = (keys ! i < keys ! j)"
proof -
  let ?K = "card (set keys)"
  have len: "length sl = ?K" by (simp add: sl_def)
  have set_sl: "set sl = set keys" by (simp add: sl_def)
  have dist: "distinct sl" by (simp add: sl_def)
  have strict: "sorted_wrt (<) sl" by (simp add: sl_def)
  show K: "0 < ?K" using ne by (simp add: card_gt_0_iff)
  show "map fst out = [0..<?K]" by (simp add: out_def len)
  have nth_out: "snd (out ! a) = where_eq keys (sl ! a)" if "a < ?K" for a
    using that by (simp add: out_def len)
  have mem: "i \<in> set (snd (out ! a)) \<longleftrightarrow> i < length keys \<and> keys ! i = sl ! a" if "a < ?K" for a i
    using nth_out [OF that] by (auto simp: where_eq_def)
  show "\<forall>a < ?K. snd (out ! a) \<noteq> [] \<and>
           snd (out ! a) = filter (\<lambda>i. keys ! i = sl ! a) [0..<length keys]"
  proof (intro allI impI)
    fix a assume a: "a < ?K"
    then have "sl ! a \<in> set keys" using set_sl len by (metis nth_mem)
    then obtain i where "i < length keys" "keys ! i = sl ! a" by (auto simp: in_set_conv_nth)
    then have "i \<in> set (snd (out ! a))" using mem [OF a] by simp
    then have "snd (out ! a) \<noteq> []" by auto
    then show "snd (out ! a) \<noteq> [] \<and>
           snd (out ! a) = filter (\<lambda>i. keys ! i = sl ! a) [0..<length keys]"
      using nth_out [OF a] by (simp add: where_eq_def)
  qed
  show "\<forall>i < length keys. \<exists>!a. a < ?K \<and> i \<in> set (snd (out ! a))"
  proof (intro allI impI)
    fix i assume i: "i < length keys"
    then have "keys ! i \<in> set sl" using set_sl by simp
    then obtain a where a: "a < ?K" "sl ! a = keys ! i" using len by (auto simp: in_set_conv_nth)
    show "\<exists>!a. a < ?K \<and> i \<in> set (snd (out ! a))"
    proof (rule ex1I [of _ a])
      show "a < ?K \<and> i \<in> set (snd (out ! a))" using a i mem [OF a(1)] by simp
    next
      fix b assume b: "b < ?K \<and> i \<in> set (snd (out ! b))"
      then have "sl ! b = keys ! i" using mem [of b i] by simp
      with a have "sl ! b = sl ! a" by simp
      with dist b a(1) len show "b = a" by (simp add: nth_eq_iff_index_eq)
    qed
  qed
  show "\<forall>a < ?K. \<forall>b < ?K.
           \<forall>i \<in> set (snd (out ! a)). \<forall>j \<in> set (snd (out ! b)). (a < b) = (keys ! i < keys ! j)"
  proof (intro allI impI ballI)
    fix a b i j
    assume a: "a < ?K" and b: "b < ?K" and i: "i \<in> set (snd (out ! a))"
      and j: "j \<in> set (snd (out ! b))"
    have ki: "keys ! i = sl ! a" using mem [OF a] i by simp
    have kj: "keys ! j = sl ! b" using mem [OF b] j by simp
    have lt: "sl ! x < sl ! y" if "x < y" "y < ?K" for x y
      using strict that len by (simp add: sorted_wrt_nth_less)
    show "(a < b) = (keys ! i < keys ! j)"
    proof
      assume "a < b"
      with lt [of a b] b show "keys ! i < keys ! j" by (simp add: ki kj)
    next
      assume h: "keys ! i < keys ! j"
      show "a < b"
      proof (rule ccontr)
        assume "\<not> a < b"
        then consider "a = b" | "b < a" by linarith
        then show False
        proof cases
          case 1
          with h ki kj show False by simp
        next
          case 2
          with lt [of b a] a h ki kj show False by simp
        qed
      qed
    qed
  qed
qed

text \<open>
  C4. For a square distance matrix with at least two rows the row loop returns, and
  leaves every index with a key that is not negative. The compaction then returns the
  clusters \<open>0, 1, ..., K - 1\<close> in this order, \<open>K\<close> the number of distinct keys: cluster
  \<open>a\<close> is the nonempty list of the indices whose key is the \<open>a\<close>-th smallest key; every
  index lies in exactly one cluster; and the clusters are numbered in the increasing
  order of their keys, the order in which the row loop allotted them (a fresh key is
  \<open>1 + max(keys)\<close>).
\<close>

theorem clusterer_total_assignment:
  assumes "2 \<le> length dist_mat"
    and "\<forall>r < length dist_mat. length (dist_mat ! r) = length dist_mat"
  shows "\<exists>keys out K.
      row_loop np dist_mat [0..<length dist_mat] (replicate (length dist_mat) (- 1)) = Inr keys
    \<and> length keys = length dist_mat \<and> (\<forall>k \<in> set keys. 0 \<le> k)
    \<and> process_dist_mat_v2 np dist_mat = Inr out \<and> K = card (set keys) \<and> 0 < K
    \<and> map fst out = [0..<K]
    \<and> (\<forall>a < K. snd (out ! a) \<noteq> [] \<and>
          snd (out ! a) =
            filter (\<lambda>i. keys ! i = sorted_list_of_set (set keys) ! a) [0..<length dist_mat])
    \<and> (\<forall>i < length dist_mat. \<exists>!a. a < K \<and> i \<in> set (snd (out ! a)))
    \<and> (\<forall>a < K. \<forall>b < K. \<forall>i \<in> set (snd (out ! a)). \<forall>j \<in> set (snd (out ! b)).
          (a < b) = (keys ! i < keys ! j))"
proof -
  from row_loop_invariant [OF assms(2), of "length dist_mat" np] obtain keys where
    k: "row_loop np dist_mat [0..<length dist_mat] (replicate (length dist_mat) (- 1)) = Inr keys"
       "length keys = length dist_mat" "\<forall>j < length dist_mat. 0 \<le> keys ! j" by auto
  have nonneg: "\<forall>k \<in> set keys. 0 \<le> k"
    using k(2,3) by (auto simp: in_set_conv_nth)
  have ne: "keys \<noteq> []" using assms(1) k(2) by auto
  let ?out = "zip [0..<card (set keys)] (map (where_eq keys) (sorted_list_of_set (set keys)))"
  have p: "process_dist_mat_v2 np dist_mat = Inr ?out"
    by (rule process_dist_mat_v2_eq [OF k(1) ne])
  note cp = compaction_props [OF ne, unfolded k(2)]
  show ?thesis
    by (intro exI [of _ keys] exI [of _ ?out] exI [of _ "card (set keys)"] conjI)
      (rule k(1) k(2) nonneg p cp refl)+
qed

lemma process_dist_mat_v2_example:
  "process_dist_mat_v2 \<lparr>dtype = Float32, rnd = (\<lambda>x. x), matmul_T = (\<lambda>E. E)\<rparr>
     [[PInf, Fin (1 / 2048), Fin (1 / 64), Fin (1 / 2)],
      [Fin (1 / 2048), PInf, Fin (1 / 4), Fin (1 / 2)],
      [Fin (1 / 64), Fin (1 / 4), PInf, Fin (1 / 4096)],
      [Fin (1 / 2), Fin (1 / 2), Fin (1 / 4096), PInf]] =
   Inr [(0, [0, 1]), (1, [2, 3])]"
  by code_simp

lemma row_loop_example:
  "row_loop \<lparr>dtype = Float32, rnd = (\<lambda>x. x), matmul_T = (\<lambda>E. E)\<rparr>
     [[PInf, Fin (1 / 2048), Fin (1 / 64), Fin (1 / 2)],
      [Fin (1 / 2048), PInf, Fin (1 / 4), Fin (1 / 2)],
      [Fin (1 / 64), Fin (1 / 4), PInf, Fin (1 / 4096)],
      [Fin (1 / 2), Fin (1 / 2), Fin (1 / 4096), PInf]]
     [0..<4] (replicate 4 (- 1)) = Inr [0, 0, 1, 1]"
  by code_simp

theorem clusterer_total_assignment_witness:
  "(2 :: nat) \<le> length [[PInf, Fin (1 / 2048), Fin (1 / 64), Fin (1 / 2)],
      [Fin (1 / 2048), PInf, Fin (1 / 4), Fin (1 / 2)],
      [Fin (1 / 64), Fin (1 / 4), PInf, Fin (1 / 4096)],
      [Fin (1 / 2), Fin (1 / 2), Fin (1 / 4096), PInf]]
   \<and> list_all (\<lambda>row. length row = 4)
       [[PInf, Fin (1 / 2048), Fin (1 / 64), Fin (1 / 2)],
      [Fin (1 / 2048), PInf, Fin (1 / 4), Fin (1 / 2)],
      [Fin (1 / 64), Fin (1 / 4), PInf, Fin (1 / 4096)],
      [Fin (1 / 2), Fin (1 / 2), Fin (1 / 4096), PInf]]
   \<and> row_loop \<lparr>dtype = Float32, rnd = (\<lambda>x. x), matmul_T = (\<lambda>E. E)\<rparr>
       [[PInf, Fin (1 / 2048), Fin (1 / 64), Fin (1 / 2)],
      [Fin (1 / 2048), PInf, Fin (1 / 4), Fin (1 / 2)],
      [Fin (1 / 64), Fin (1 / 4), PInf, Fin (1 / 4096)],
      [Fin (1 / 2), Fin (1 / 2), Fin (1 / 4096), PInf]]
       [0..<4] (replicate 4 (- 1)) = Inr [0, 0, 1, 1]
   \<and> process_dist_mat_v2 \<lparr>dtype = Float32, rnd = (\<lambda>x. x), matmul_T = (\<lambda>E. E)\<rparr>
       [[PInf, Fin (1 / 2048), Fin (1 / 64), Fin (1 / 2)],
      [Fin (1 / 2048), PInf, Fin (1 / 4), Fin (1 / 2)],
      [Fin (1 / 64), Fin (1 / 4), PInf, Fin (1 / 4096)],
      [Fin (1 / 2), Fin (1 / 2), Fin (1 / 4096), PInf]] =
      Inr [(0, [0, 1]), (1, [2, 3])]"
proof -
  let ?D = "[[PInf, Fin (1 / 2048), Fin (1 / 64), Fin (1 / 2)],
      [Fin (1 / 2048), PInf, Fin (1 / 4), Fin (1 / 2)],
      [Fin (1 / 64), Fin (1 / 4), PInf, Fin (1 / 4096)],
      [Fin (1 / 2), Fin (1 / 2), Fin (1 / 4096), PInf]]"
  have h1: "2 \<le> length ?D" by simp
  have "\<forall>row \<in> set ?D. length row = length ?D" by simp
  then have h2: "\<forall>r < length ?D. length (?D ! r) = length ?D"
    by (simp only: all_set_conv_all_nth)
  have h3: "list_all (\<lambda>row. length row = 4) ?D" by simp
  from clusterer_total_assignment [OF h1 h2] h1 h3 row_loop_example process_dist_mat_v2_example
  show ?thesis by blast
qed
end
